theory Spec2Isabelle
  imports Main "HOL-Library.Code_Target_Nat"
begin

section \<open>Python strings and \<open>re.sub\<close>\<close>

text \<open>
  A Python \<open>str\<close> is a sequence of Unicode code points. The sentinels of
  \<open>update_entities\<close> (U+2622, U+2623, U+2624) lie outside the range of \<^typ>\<open>char\<close>,
  so a string is a list of code points; \<open>lit\<close> embeds an ASCII literal.
\<close>

type_synonym str = "nat list"

definition lit :: "string \<Rightarrow> str" where
  "lit s = map of_char s"

definition starts_with :: "str \<Rightarrow> str \<Rightarrow> bool" where
  "starts_with p s = (take (length p) s = p)"

text \<open>
  \<open>re.sub(pattern, repl, string)\<close>. The patterns of this program are strings of
  ordinary characters, the escape \<open>\.\<close> (in \<open>\.xml\<close> and \<open>\.zip\<close>) and whatever a user
  name contains. The model covers the part of the pattern language made of ordinary
  characters, a backslash followed by a character (that character, literally) and the
  dot, which matches every character but the newline; the template \<open>repl\<close> is taken as
  it is, which is what \<open>re.sub\<close> does with a template without backslash. The patterns
  and templates written in the program are of that kind. A user name is not under the
  program's control: \<open>re_supported\<close> and \<open>repl_supported\<close> say which names may stand in a
  pattern and in a template for \<open>sub\<close> to describe \<open>re.sub\<close>, and \<open>update_entities\<close>
  below gives no result for the others.
\<close>

datatype re_item = Lit nat | Dot

fun re_compile :: "str \<Rightarrow> re_item list" where
  "re_compile [] = []"
| "re_compile [c] = [if c = 46 then Dot else Lit c]"
| "re_compile (c # d # cs) =
     (if c = 92 then Lit d # re_compile cs
      else (if c = 46 then Dot else Lit c) # re_compile (d # cs))"

definition re_special :: "nat list" where
  "re_special = 92 # lit ''^$*+?{}[]|()''"

definition re_supported :: "str \<Rightarrow> bool" where
  "re_supported p = (\<forall>c \<in> set p. c \<notin> set re_special)"

definition re_literal :: "str \<Rightarrow> bool" where
  "re_literal p = (\<forall>c \<in> set p. c \<notin> set re_special \<and> c \<noteq> 46)"

definition repl_supported :: "str \<Rightarrow> bool" where
  "repl_supported r = (92 \<notin> set r)"

fun item_match :: "re_item \<Rightarrow> nat \<Rightarrow> bool" where
  "item_match (Lit a) c = (a = c)"
| "item_match Dot c = (c \<noteq> 10)"

fun match_prefix :: "re_item list \<Rightarrow> str \<Rightarrow> bool" where
  "match_prefix [] s = True"
| "match_prefix (i # is) [] = False"
| "match_prefix (i # is) (c # cs) = (item_match i c \<and> match_prefix is cs)"

text \<open>
  The scan of \<open>re.sub\<close>: leftmost match first, the search resumes after the end of the
  match, so matches never overlap.
\<close>

function sub_items :: "re_item list \<Rightarrow> str \<Rightarrow> str \<Rightarrow> str" where
  "sub_items p r [] = []"
| "sub_items p r (c # cs) =
     (if p \<noteq> [] \<and> match_prefix p (c # cs)
      then r @ sub_items p r (drop (length p - 1) cs)
      else c # sub_items p r cs)"
  by pat_completeness auto
termination
  by (relation "measure (\<lambda>(p, r, s). length s)") auto

definition sub :: "str \<Rightarrow> str \<Rightarrow> str \<Rightarrow> str" where
  "sub pattern repl string =
     (let p = re_compile pattern
      in if p = [] then repl @ concat (map (\<lambda>c. c # repl) string)
         else sub_items p repl string)"

section \<open>XML documents as \<open>lxml\<close> holds them\<close>

text \<open>
  A document is the tree \<open>lxml.etree.parse\<close> builds: elements with their attributes in
  document order, text nodes and comments. \<open>elem.text\<close> is the text in front of the
  first child that is not text.
\<close>

datatype node =
    Element (tag: str) (attrib: "(str \<times> str) list") (children: "node list")
  | Text str
  | Comment str

datatype document = Document (prolog: "node list") (getroot: node) (epilog: "node list")

datatype error = FileNotFoundError | OSError | BadZipFile | XMLSyntaxError | Unsupported

fun is_text :: "node \<Rightarrow> bool" where
  "is_text (Text s) = True"
| "is_text n = False"

fun is_comment :: "node \<Rightarrow> bool" where
  "is_comment (Comment s) = True"
| "is_comment n = False"

fun text_of :: "node \<Rightarrow> str" where
  "text_of (Text s) = s"
| "text_of n = []"

definition get_text :: "node list \<Rightarrow> str option" where
  "get_text cs =
     (let ts = takeWhile is_text cs
      in if ts = [] then None else Some (concat (map text_of ts)))"

definition set_text :: "str \<Rightarrow> node list \<Rightarrow> node list" where
  "set_text v cs = Text v # dropWhile is_text cs"

definition attrib_set :: "str \<Rightarrow> str \<Rightarrow> (str \<times> str) list \<Rightarrow> (str \<times> str) list" where
  "attrib_set name v a =
     (if name \<in> fst ` set a then map (\<lambda>(k, x). if k = name then (k, v) else (k, x)) a
      else a @ [(name, v)])"

subsection \<open>Serialisation: \<open>tostring(tree, encoding=str)\<close>\<close>

fun escape_text :: "str \<Rightarrow> str" where
  "escape_text [] = []"
| "escape_text (c # cs) =
     (if c = 38 then lit ''&amp;''
      else if c = 60 then lit ''&lt;''
      else if c = 62 then lit ''&gt;''
      else if c = 13 then lit ''&#13;''
      else [c]) @ escape_text cs"

fun escape_attr :: "str \<Rightarrow> str" where
  "escape_attr [] = []"
| "escape_attr (c # cs) =
     (if c = 38 then lit ''&amp;''
      else if c = 60 then lit ''&lt;''
      else if c = 62 then lit ''&gt;''
      else if c = 34 then lit ''&quot;''
      else if c = 10 then lit ''&#10;''
      else if c = 13 then lit ''&#13;''
      else if c = 9 then lit ''&#9;''
      else [c]) @ escape_attr cs"

definition tostring_attrs :: "(str \<times> str) list \<Rightarrow> str" where
  "tostring_attrs a = concat (map (\<lambda>(k, v). 32 # k @ [61, 34] @ escape_attr v @ [34]) a)"

fun tostring_node :: "node \<Rightarrow> str" where
  "tostring_node (Element n a cs) =
     (if cs = [] then [60] @ n @ tostring_attrs a @ [47, 62]
      else [60] @ n @ tostring_attrs a @ [62] @ concat (map tostring_node cs)
           @ [60, 47] @ n @ [62])"
| "tostring_node (Text s) = escape_text s"
| "tostring_node (Comment s) = lit ''<!--'' @ s @ lit ''-->''"

definition tostring :: "document \<Rightarrow> str" where
  "tostring d =
     concat (map tostring_node (prolog d)) @ tostring_node (getroot d)
     @ concat (map tostring_node (epilog d))"

subsection \<open>Parsing: \<open>parse(source, parser=XMLParser(strip_cdata=False, resolve_entities=False))\<close>\<close>

text \<open>
  The parser follows XML 1.0 as \<open>libxml2\<close> reads it, for documents made of an optional
  XML declaration, comments, elements with attributes in single or double quotes, text,
  the five predefined entity references and numeric character references. Line ends
  are normalised to a line feed before anything else, white space in an attribute
  value becomes a space, and a reference to a character is replaced by the character.

  It has two ways to fail. \<open>XMLSyntaxError\<close> is the exception \<open>lxml\<close> raises: a character
  XML forbids (a form feed, say), \<open>]]>\<close> in text, an unknown entity, a duplicate
  attribute, a mismatched end tag, text outside the root element. \<open>Unsupported\<close> marks
  input the model does not cover, and says nothing of what the code does with it: a
  DOCTYPE, a CDATA section, a processing instruction, a name with a colon or a
  character beyond ASCII, an \<open>xmlns\<close> attribute, a byte order mark, a declaration of
  another version or encoding.
\<close>

definition is_xml_char :: "nat \<Rightarrow> bool" where
  "is_xml_char c =
     (c = 9 \<or> c = 10 \<or> c = 13 \<or> (32 \<le> c \<and> c \<le> 55295) \<or> (57344 \<le> c \<and> c \<le> 65533)
      \<or> (65536 \<le> c \<and> c \<le> 1114111))"

definition is_space :: "nat \<Rightarrow> bool" where
  "is_space c = (c = 32 \<or> c = 9 \<or> c = 10 \<or> c = 13)"

definition is_name_start :: "nat \<Rightarrow> bool" where
  "is_name_start c = ((65 \<le> c \<and> c \<le> 90) \<or> (97 \<le> c \<and> c \<le> 122) \<or> c = 95)"

definition is_name_char :: "nat \<Rightarrow> bool" where
  "is_name_char c = (is_name_start c \<or> (48 \<le> c \<and> c \<le> 57) \<or> c = 45 \<or> c = 46)"

definition is_name :: "str \<Rightarrow> bool" where
  "is_name n = (case n of [] \<Rightarrow> False | c # cs \<Rightarrow> is_name_start c \<and> list_all is_name_char cs)"

text \<open>
  A name is read as far as the characters reach that an XML name may hold; the model
  then keeps the ASCII names without a colon.
\<close>

definition name_like :: "nat \<Rightarrow> bool" where
  "name_like c = (is_name_char c \<or> c = 58 \<or> 128 \<le> c)"

definition name_check :: "str \<Rightarrow> error + unit" where
  "name_check n =
     (if n = lit ''xmlns'' \<or> list_ex (\<lambda>c. c = 58 \<or> 128 \<le> c) n then Inl Unsupported
      else if is_name n then Inr ()
      else Inl XMLSyntaxError)"

fun normalize_newlines :: "str \<Rightarrow> str" where
  "normalize_newlines [] = []"
| "normalize_newlines [c] = [if c = 13 then 10 else c]"
| "normalize_newlines (c # d # cs) =
     (if c = 13 then (if d = 10 then 10 # normalize_newlines cs
                      else 10 # normalize_newlines (d # cs))
      else c # normalize_newlines (d # cs))"

fun occurs :: "str \<Rightarrow> str \<Rightarrow> bool" where
  "occurs q [] = (q = [])"
| "occurs q (c # cs) = (starts_with q (c # cs) \<or> occurs q cs)"

fun split_on :: "str \<Rightarrow> str \<Rightarrow> (str \<times> str) option" where
  "split_on q [] = None"
| "split_on q (c # cs) =
     (if starts_with q (c # cs) then Some ([], drop (length q) (c # cs))
      else map_option (\<lambda>(b, r). (c # b, r)) (split_on q cs))"

text \<open>Numeric character references: \<open>&#60;\<close> and \<open>&#x3c;\<close>.\<close>

definition digit :: "nat \<Rightarrow> nat option" where
  "digit c = (if 48 \<le> c \<and> c \<le> 57 then Some (c - 48) else None)"

definition hex_digit :: "nat \<Rightarrow> nat option" where
  "hex_digit c =
     (if 48 \<le> c \<and> c \<le> 57 then Some (c - 48)
      else if 97 \<le> c \<and> c \<le> 102 then Some (c - 87)
      else if 65 \<le> c \<and> c \<le> 70 then Some (c - 55)
      else None)"

fun number :: "nat \<Rightarrow> (nat \<Rightarrow> nat option) \<Rightarrow> nat \<Rightarrow> str \<Rightarrow> nat option" where
  "number base dig acc [] = Some acc"
| "number base dig acc (c # cs) =
     (case dig c of None \<Rightarrow> None | Some d \<Rightarrow> number base dig (acc * base + d) cs)"

definition char_ref :: "str \<Rightarrow> nat option" where
  "char_ref b =
     (case (case b of
              [] \<Rightarrow> None
            | c # cs \<Rightarrow> if c = 120 then (if cs = [] then None else number 16 hex_digit 0 cs)
                       else number 10 digit 0 (c # cs)) of
        None \<Rightarrow> None
      | Some v \<Rightarrow> if is_xml_char v then Some v else None)"

function unescape :: "str \<Rightarrow> error + str" where
  "unescape [] = Inr []"
| "unescape (c # cs) =
     (if c = 38 then
        (if starts_with [35] cs then
           (if dropWhile (\<lambda>x. x \<noteq> 59) (tl cs) = [] then Inl XMLSyntaxError
            else (case char_ref (takeWhile (\<lambda>x. x \<noteq> 59) (tl cs)) of
                    None \<Rightarrow> Inl XMLSyntaxError
                  | Some v \<Rightarrow> map_sum id ((#) v) (unescape (tl (dropWhile (\<lambda>x. x \<noteq> 59) (tl cs))))))
         else if starts_with (lit ''lt;'') cs then map_sum id ((#) 60) (unescape (drop 3 cs))
         else if starts_with (lit ''gt;'') cs then map_sum id ((#) 62) (unescape (drop 3 cs))
         else if starts_with (lit ''amp;'') cs then map_sum id ((#) 38) (unescape (drop 4 cs))
         else if starts_with (lit ''quot;'') cs then map_sum id ((#) 34) (unescape (drop 5 cs))
         else if starts_with (lit ''apos;'') cs then map_sum id ((#) 39) (unescape (drop 5 cs))
         else Inl XMLSyntaxError)
      else map_sum id ((#) c) (unescape cs))"
  by pat_completeness auto
termination
proof (relation "measure length", goal_cases)
  case 1
  then show ?case by simp
next
  case (2 c cs x2)
  have "length (dropWhile (\<lambda>x. x \<noteq> 59) (tl cs)) \<le> length (tl cs)"
    by (rule length_dropWhile_le)
  then show ?case by simp
qed auto

definition attr_value :: "str \<Rightarrow> error + str" where
  "attr_value v =
     (if 60 \<in> set v then Inl XMLSyntaxError
      else unescape (map (\<lambda>c. if c = 9 \<or> c = 10 \<or> c = 13 then 32 else c) v))"

function parse_attrs :: "str \<Rightarrow> error + (str \<times> str) list" where
  "parse_attrs s =
     (let s1 = dropWhile is_space s
      in if s1 = [] then Inr []
         else if length s1 = length s then Inl XMLSyntaxError
         else
           let n = takeWhile name_like s1;
               s2 = dropWhile is_space (dropWhile name_like s1)
           in if s2 = [] \<or> hd s2 \<noteq> 61 then Inl XMLSyntaxError
              else
                let s3 = dropWhile is_space (tl s2)
                in if s3 = [] \<or> (hd s3 \<noteq> 34 \<and> hd s3 \<noteq> 39) then Inl XMLSyntaxError
                   else
                     let v = takeWhile (\<lambda>c. c \<noteq> hd s3) (tl s3);
                         s4 = dropWhile (\<lambda>c. c \<noteq> hd s3) (tl s3)
                     in if s4 = [] then Inl XMLSyntaxError
                        else (case name_check n of
                                Inl e \<Rightarrow> Inl e
                              | Inr u \<Rightarrow>
                                  (case attr_value v of
                                     Inl e \<Rightarrow> Inl e
                                   | Inr v' \<Rightarrow>
                                       (case parse_attrs (tl s4) of
                                          Inl e \<Rightarrow> Inl e
                                        | Inr a \<Rightarrow>
                                            if n \<in> set (map fst a) then Inl XMLSyntaxError
                                            else Inr ((n, v') # a)))))"
  by pat_completeness auto
termination
proof (relation "measure length", goal_cases)
  case 1
  then show ?case by simp
next
  case (2 s s1 n s2 s3 v s4 u v')
  have "length s4 \<le> length (tl s3)" unfolding 2 by (rule length_dropWhile_le)
  also have "\<dots> \<le> length s3" by simp
  also have "\<dots> \<le> length (tl s2)" unfolding 2 by (rule length_dropWhile_le)
  also have "\<dots> \<le> length s2" by simp
  also have "\<dots> \<le> length (dropWhile name_like s1)" unfolding 2 by (rule length_dropWhile_le)
  also have "\<dots> \<le> length s1" by (rule length_dropWhile_le)
  also have "\<dots> \<le> length s" unfolding 2 by (rule length_dropWhile_le)
  finally have "length s4 \<le> length s" .
  moreover have "length (tl s4) < length s4" using 2 by (cases s4) auto
  ultimately show ?case by simp
qed

text \<open>
  A run of text is kept twice, as it is written and with its references replaced:
  outside the root element only white space as written is allowed, a reference is not.
\<close>

datatype token =
    TText str str
  | TComment str
  | TOpen str "(str \<times> str) list"
  | TEmpty str "(str \<times> str) list"
  | TClose str

definition parse_tag :: "str \<Rightarrow> error + token" where
  "parse_tag m =
     (case m of
        [] \<Rightarrow> Inl XMLSyntaxError
      | c # cs \<Rightarrow>
          if c = 47 then
            (let n = takeWhile name_like cs; r = dropWhile name_like cs
             in if \<not> list_all is_space r then Inl XMLSyntaxError
                else (case name_check n of Inl e \<Rightarrow> Inl e | Inr u \<Rightarrow> Inr (TClose n)))
          else
            (let selfclose = (last m = 47);
                 body = (if selfclose then butlast m else m);
                 n = takeWhile name_like body;
                 r = dropWhile name_like body
             in (case name_check n of
                   Inl e \<Rightarrow> Inl e
                 | Inr u \<Rightarrow>
                     (case parse_attrs r of
                        Inl e \<Rightarrow> Inl e
                      | Inr a \<Rightarrow> Inr (if selfclose then TEmpty n a else TOpen n a)))))"

text \<open>
  The end of a tag is the first \<open>>\<close> outside a quoted value; \<open>q\<close> is the quote that is
  open, or 0.
\<close>

fun scan_tag :: "nat \<Rightarrow> str \<Rightarrow> (str \<times> str) option" where
  "scan_tag q [] = None"
| "scan_tag q (c # cs) =
     (if q = 0 \<and> c = 62 then Some ([], cs)
      else map_option (\<lambda>(m, r). (c # m, r))
             (scan_tag (if q = 0 then (if c = 34 \<or> c = 39 then c else 0)
                        else if c = q then 0 else q) cs))"

fun has_double_hyphen :: "str \<Rightarrow> bool" where
  "has_double_hyphen (a # b # cs) = ((a = 45 \<and> b = 45) \<or> has_double_hyphen (b # cs))"
| "has_double_hyphen cs = False"

definition comment_ok :: "str \<Rightarrow> bool" where
  "comment_ok b = (\<not> has_double_hyphen b \<and> (b = [] \<or> last b \<noteq> 45))"

function lex :: "str \<Rightarrow> error + token list" where
  "lex [] = Inr []"
| "lex (c # cs) =
     (if c = 60 then
        (if starts_with (lit ''!--'') cs then
           (case split_on (lit ''-->'') (drop 3 cs) of
              None \<Rightarrow> Inl XMLSyntaxError
            | Some (b, rest) \<Rightarrow>
                if comment_ok b then map_sum id ((#) (TComment b)) (lex rest)
                else Inl XMLSyntaxError)
         else if starts_with [33] cs \<or> starts_with [63] cs then Inl Unsupported
         else
           (case scan_tag 0 cs of
              None \<Rightarrow> Inl XMLSyntaxError
            | Some (m, rest) \<Rightarrow>
                (case parse_tag m of
                   Inl e \<Rightarrow> Inl e
                 | Inr tok \<Rightarrow> map_sum id ((#) tok) (lex rest))))
      else
        (let t = takeWhile (\<lambda>x. x \<noteq> 60) cs; rest = dropWhile (\<lambda>x. x \<noteq> 60) cs
         in if occurs (lit '']]>'') (c # t) then Inl XMLSyntaxError
            else (case unescape (c # t) of
                    Inl e \<Rightarrow> Inl e
                  | Inr t' \<Rightarrow> map_sum id ((#) (TText (c # t) t')) (lex rest))))"
  by pat_completeness auto
termination
proof -
  have split_shorter: "split_on q s = Some (b, r) \<Longrightarrow> length r \<le> length s" for q s b r
  proof (induction s arbitrary: b)
    case Nil
    then show ?case by simp
  next
    case (Cons c s)
    then show ?case by (fastforce split: if_splits)
  qed
  have scan_shorter: "scan_tag q s = Some (m, r) \<Longrightarrow> length r < length s" for q s m r
  proof (induction s arbitrary: q m)
    case Nil
    then show ?case by simp
  next
    case (Cons c s)
    then show ?case by (fastforce split: if_splits)
  qed
  have dw: "length (dropWhile P xs) \<le> length xs" for P and xs :: str
    by (rule length_dropWhile_le)
  show ?thesis
  proof (relation "measure length", goal_cases)
    case 1
    then show ?case by simp
  next
    case (2 c cs x2 b rest)
    then have "length rest \<le> length (drop 3 cs)" using split_shorter by metis
    then show ?case by simp
  next
    case (3 c cs x2 m rest tok)
    then have "length rest < length cs" using scan_shorter by metis
    then show ?case by simp
  next
    case (4 c cs t rest t')
    then show ?case using dw[of "\<lambda>x. x \<noteq> 60" cs] by simp
  qed
qed

text \<open>
  The tree is built with a stack of the elements that are open: a frame holds the tag,
  the attributes and the children read before the element was opened, latest first.
\<close>

fun build :: "(str \<times> (str \<times> str) list \<times> node list) list \<Rightarrow> node list \<Rightarrow> token list
              \<Rightarrow> node list option" where
  "build [] acc [] = Some (rev acc)"
| "build (f # st) acc [] = None"
| "build [] acc (TText w s # ts) =
     (if list_all is_space w then build [] (Text s # acc) ts else None)"
| "build (f # st) acc (TText w s # ts) = build (f # st) (Text s # acc) ts"
| "build st acc (TComment s # ts) = build st (Comment s # acc) ts"
| "build st acc (TEmpty n a # ts) = build st (Element n a [] # acc) ts"
| "build st acc (TOpen n a # ts) = build ((n, a, acc) # st) [] ts"
| "build [] acc (TClose m # ts) = None"
| "build ((n, a, acc') # st) acc (TClose m # ts) =
     (if m = n then build st (Element n a (rev acc) # acc') ts else None)"

definition xml_declaration :: str where
  "xml_declaration = lit ''<?xml version=\"1.0\" encoding=\"UTF-8\"?>''"

text \<open>
  The declarations the model reads: version 1.0, then the encoding UTF-8 if any, then
  \<open>standalone\<close> if any.
\<close>

definition declarations :: "(str \<times> str) list list" where
  "declarations =
     [(lit ''version'', lit ''1.0'') # e @ s.
        e \<leftarrow> [[], [(lit ''encoding'', lit ''UTF-8'')], [(lit ''encoding'', lit ''utf-8'')]],
        s \<leftarrow> [[], [(lit ''standalone'', lit ''yes'')], [(lit ''standalone'', lit ''no'')]]]"

definition strip_declaration :: "str \<Rightarrow> error + str" where
  "strip_declaration s =
     (if starts_with (lit ''<?xml'') s \<and> list_ex is_space (take 1 (drop 5 s)) then
        (case split_on (lit ''?>'') (drop 5 s) of
           None \<Rightarrow> Inl XMLSyntaxError
         | Some (inside, rest) \<Rightarrow>
             (case parse_attrs inside of
                Inl e \<Rightarrow> Inl Unsupported
              | Inr a \<Rightarrow> if a \<in> set declarations then Inr rest else Inl Unsupported))
      else Inr s)"

fun is_blank :: "node \<Rightarrow> bool" where
  "is_blank (Text s) = list_all is_space s"
| "is_blank n = False"

definition parse :: "str \<Rightarrow> error + document" where
  "parse source =
     (if \<not> list_all is_xml_char source then Inl XMLSyntaxError
      else if starts_with [65279] source then Inl Unsupported
      else
        (case strip_declaration (normalize_newlines source) of
           Inl e \<Rightarrow> Inl e
         | Inr body \<Rightarrow>
             (case lex body of
                Inl e \<Rightarrow> Inl e
              | Inr toks \<Rightarrow>
                  (case build [] [] toks of
                     None \<Rightarrow> Inl XMLSyntaxError
                   | Some nodes \<Rightarrow>
                       (let top = filter (\<lambda>n. \<not> is_blank n) nodes
                        in (case dropWhile is_comment top of
                              Element n a cs # ep \<Rightarrow>
                                if list_all is_comment ep
                                then Inr (Document (takeWhile is_comment top) (Element n a cs) ep)
                                else Inl XMLSyntaxError
                            | _ \<Rightarrow> Inl XMLSyntaxError))))))"

section \<open>Files and archives\<close>

text \<open>
  The file system maps a path to a file; a file is text or a zip archive with its
  members in order. A path string is resolved to its components: it is split at the
  slashes and the empty components are dropped, as the operating system does
  (\<open>data_path('/data.zip')\<close> is \<open><workspace>/data//data.zip\<close>); relative paths are
  taken from the root. Directories are the proper prefixes of the paths of the files.
  A member of an archive is named by its components.
\<close>

type_synonym path = "str list"

datatype file_content = Plain str | Zip "(path \<times> file_content) list"

type_synonym fs = "(path \<times> file_content) list"

fun split_slash :: "str \<Rightarrow> str list" where
  "split_slash [] = [[]]"
| "split_slash (c # cs) =
     (if c = 47 then [] # split_slash cs
      else (case split_slash cs of [] \<Rightarrow> [[c]] | x # xs \<Rightarrow> (c # x) # xs))"

definition components :: "str \<Rightarrow> path" where
  "components s = filter (\<lambda>c. c \<noteq> []) (split_slash s)"

definition fs_lookup :: "fs \<Rightarrow> str \<Rightarrow> file_content option" where
  "fs_lookup fs p = map_of fs (components p)"

fun fs_update :: "path \<Rightarrow> file_content \<Rightarrow> fs \<Rightarrow> fs" where
  "fs_update k f [] = [(k, f)]"
| "fs_update k f ((k', f') # fs) =
     (if k' = k then (k, f) # fs else (k', f') # fs_update k f fs)"

definition fs_write :: "fs \<Rightarrow> str \<Rightarrow> file_content \<Rightarrow> fs" where
  "fs_write fs p f = fs_update (components p) f fs"

definition unlink :: "fs \<Rightarrow> str \<Rightarrow> fs" where
  "unlink fs p = filter (\<lambda>(k, f). k \<noteq> components p) fs"

definition inside :: "str \<Rightarrow> path \<Rightarrow> bool" where
  "inside dir k =
     (length (components dir) < length k \<and> take (length (components dir)) k = components dir)"

definition rmtree :: "fs \<Rightarrow> str \<Rightarrow> fs" where
  "rmtree fs dir = filter (\<lambda>(k, f). \<not> inside dir k) fs"

text \<open>
  \<open>ZipFile.extractall(path)\<close> drops the components \<open>.\<close> and \<open>..\<close> of a member's name; a
  member whose name has no component left is a directory entry and writes no file.
\<close>

definition sanitize :: "path \<Rightarrow> path" where
  "sanitize name = filter (\<lambda>c. c \<noteq> [] \<and> c \<noteq> lit ''.'' \<and> c \<noteq> lit ''..'') name"

definition extractall :: "(path \<times> file_content) list \<Rightarrow> str \<Rightarrow> fs \<Rightarrow> fs" where
  "extractall members p fs =
     foldl (\<lambda>fs (name, f). if sanitize name = [] then fs
                             else fs_update (components p @ sanitize name) f fs) fs members"

definition make_archive :: "fs \<Rightarrow> str \<Rightarrow> str \<Rightarrow> fs" where
  "make_archive fs base_name root_dir =
     fs_write fs (base_name @ lit ''.zip'')
       (Zip (map (\<lambda>(k, f). (drop (length (components root_dir)) k, f))
               (filter (\<lambda>(k, f). inside root_dir k) fs)))"

text \<open>
  A step of the pipeline returns the file system it leaves behind and the exception it
  raised, if any; after an exception the later steps do not run.
\<close>

type_synonym outcome = "error option \<times> fs"

definition and_then :: "outcome \<Rightarrow> (fs \<Rightarrow> outcome) \<Rightarrow> outcome" where
  "and_then r step = (case r of (None, fs) \<Rightarrow> step fs | (Some e, fs) \<Rightarrow> (Some e, fs))"

section \<open>The masseur\<close>

text \<open>
  The dict \<open>user_name_map\<close> is the list of its items in the order of iteration, old name
  first; the keys of a dict are distinct.
\<close>

type_synonym user_name_map = "(str \<times> str) list"

record masseur =
  debug :: bool
  user_name_map :: user_name_map
  workspace :: str
  config_xml_path :: str
  data_zip_path :: str
  objects_xml_path :: str
  entities_xml_path :: str

definition workspace_path :: "str \<Rightarrow> str option \<Rightarrow> str" where
  "workspace_path ws path = (case path of None \<Rightarrow> ws | Some p \<Rightarrow> ws @ [47] @ p)"

definition data_path :: "str \<Rightarrow> str option \<Rightarrow> str" where
  "data_path ws path =
     (case path of None \<Rightarrow> workspace_path ws (Some (lit ''data''))
      | Some p \<Rightarrow> workspace_path ws (Some (lit ''data/'' @ p)))"

text \<open>\<open>__init__\<close>; \<open>tmp\<close> is the fresh directory that \<open>mkdtemp()\<close> returned.\<close>

definition init :: "user_name_map \<Rightarrow> bool \<Rightarrow> str \<Rightarrow> masseur" where
  "init m dbg tmp =
     \<lparr> debug = dbg, user_name_map = m, workspace = tmp,
       config_xml_path = workspace_path tmp (Some (lit ''config.xml'')),
       data_zip_path = data_path tmp (Some (lit ''/data.zip'')),
       objects_xml_path = data_path tmp (Some (lit ''/activeobjects.xml'')),
       entities_xml_path = data_path tmp (Some (lit ''/entities.xml'')) \<rparr>"

definition exit :: "masseur \<Rightarrow> fs \<Rightarrow> fs" where
  "exit self fs = (if debug self then fs else rmtree fs (workspace_path (workspace self) None))"

definition prepare_output_path :: "masseur \<Rightarrow> str \<Rightarrow> str" where
  "prepare_output_path self path =
     (if \<not> debug self then path else sub (92 # lit ''.xml'') (lit ''.proc.xml'') path)"

subsection \<open>\<open>update_config\<close>\<close>

text \<open>
  \<open>root.findall('.//' + name)\<close> yields the elements with that tag below the root, in
  document order, not the root; the loop body changes the text of the element at hand
  only, so the loop is a map over the subtrees of the root.
\<close>

definition update_text :: "user_name_map \<Rightarrow> node list \<Rightarrow> node list" where
  "update_text m cs =
     (case get_text cs of
        None \<Rightarrow> cs
      | Some t \<Rightarrow> (case map_of m t of None \<Rightarrow> cs | Some v \<Rightarrow> set_text v cs))"

fun update_subtree :: "user_name_map \<Rightarrow> str \<Rightarrow> node \<Rightarrow> node" where
  "update_subtree m name (Element t a cs) =
     (let cs' = map (update_subtree m name) cs
      in Element t a (if t = name then update_text m cs' else cs'))"
| "update_subtree m name n = n"

definition update_children :: "user_name_map \<Rightarrow> node \<Rightarrow> str \<Rightarrow> node" where
  "update_children m root name =
     (case root of
        Element t a cs \<Rightarrow> Element t a (map (update_subtree m name) cs)
      | _ \<Rightarrow> root)"

definition config_tags :: "str list" where
  "config_tags =
     [lit ''administratorUser'', lit ''author'', lit ''lead'', lit ''memberUser'', lit ''owner'',
      lit ''username'']"

definition update_config_tree :: "user_name_map \<Rightarrow> node \<Rightarrow> node" where
  "update_config_tree m root = foldl (update_children m) root config_tags"

text \<open>
  \<open>lxml\<close> refuses (with \<open>ValueError\<close>) to store a string with a character XML forbids.
  The model does not follow that exception through the loops: with such a new name
  in the map it stops with \<open>Unsupported\<close> once the document is parsed.
\<close>

definition values_supported :: "user_name_map \<Rightarrow> bool" where
  "values_supported m = list_all (\<lambda>(old, new). list_all is_xml_char new) m"

definition update_config :: "masseur \<Rightarrow> str \<Rightarrow> str \<Rightarrow> fs \<Rightarrow> outcome" where
  "update_config self in_path out_path fs =
     (case fs_lookup fs in_path of
        None \<Rightarrow> (Some OSError, fs)
      | Some (Zip ms) \<Rightarrow> (Some XMLSyntaxError, fs)
      | Some (Plain content) \<Rightarrow>
          (case parse content of
             Inl e \<Rightarrow> (Some e, fs)
           | Inr config \<Rightarrow>
               if \<not> values_supported (user_name_map self) then (Some Unsupported, fs)
               else
               (None, fs_write fs out_path
                  (Plain (xml_declaration @ [10]
                          @ tostring (Document (prolog config)
                                        (update_config_tree (user_name_map self) (getroot config))
                                        (epilog config)))))))"

subsection \<open>\<open>update_entities\<close>\<close>

text \<open>
  The loop over the user names on one attribute value, in the order of the map.
\<close>

fun rename :: "user_name_map \<Rightarrow> str \<Rightarrow> str" where
  "rename [] v = v"
| "rename ((username, new) # m) v =
     rename m (if v = username then new else sub (32 # username @ [32]) (32 # new @ [32]) v)"

text \<open>
  \<open>for elem in root.findall('.//*[@name]'): elem.set(name, f(elem.get(name)))\<close>: every
  element below the root that carries the attribute, the root left out.
\<close>

fun map_attr_subtree :: "str \<Rightarrow> (str \<Rightarrow> str) \<Rightarrow> node \<Rightarrow> node" where
  "map_attr_subtree name f (Element t a cs) =
     Element t (case map_of a name of None \<Rightarrow> a | Some v \<Rightarrow> attrib_set name (f v) a)
       (map (map_attr_subtree name f) cs)"
| "map_attr_subtree name f n = n"

definition map_attr_descendants :: "str \<Rightarrow> (str \<Rightarrow> str) \<Rightarrow> node \<Rightarrow> node" where
  "map_attr_descendants name f root =
     (case root of
        Element t a cs \<Rightarrow> Element t a (map (map_attr_subtree name f) cs)
      | _ \<Rightarrow> root)"

definition update_attributes :: "user_name_map \<Rightarrow> node \<Rightarrow> str \<Rightarrow> node" where
  "update_attributes m root name = map_attr_descendants name (rename m) root"

definition user_attrs :: "str list" where
  "user_attrs =
     [lit ''author'', lit ''authorKey'', lit ''caller'', lit ''creator'', lit ''deltaFrom'',
      lit ''deltaTo'', lit ''entityId'', lit ''lead'', lit ''lowerChildName'',
      lit ''lowerUserName'', lit ''newvalue'', lit ''objectName'', lit ''oldvalue'', lit ''owner'',
      lit ''roletypeparameter'', lit ''sourceName'', lit ''updateauthor'', lit ''user'',
      lit ''username'']"

definition quoted_attrs :: "str list" where
  "quoted_attrs =
     [lit ''author'', lit ''body'', lit ''data'', lit ''deltaTo'', lit ''description'',
      lit ''infoMessage'', lit ''name'', lit ''newstring'', lit ''oldstring'', lit ''searchField'',
      lit ''summary'', lit ''title'']"

definition update_entities_tree :: "user_name_map \<Rightarrow> node \<Rightarrow> node" where
  "update_entities_tree m root =
     foldl (\<lambda>r attr. map_attr_descendants attr (sub [39] [9764]) r)
       (foldl (update_attributes m) root user_attrs) quoted_attrs"

text \<open>
  The user names reach \<open>re.sub\<close> as they are, the old one in the pattern and the new one
  in the template. \<open>sub\<close> describes \<open>re.sub\<close> for a pattern without special character
  other than the dot and a template without backslash; with another name in the map
  the model stops with \<open>Unsupported\<close> once the document is parsed, and says nothing of
  what the code does (it may raise \<open>re.error\<close>, or rewrite by the rules of the pattern
  language). As in \<open>update_config\<close>, a new name must be made of characters XML allows.
\<close>

definition names_supported :: "user_name_map \<Rightarrow> bool" where
  "names_supported m =
     (list_all (\<lambda>(old, new). re_supported old \<and> repl_supported new) m \<and> values_supported m)"

definition update_entities_content :: "user_name_map \<Rightarrow> str \<Rightarrow> error + str" where
  "update_entities_content m content =
     (let content1 = sub [12] [9762] content;
          content2 = sub [13] [9763] content1
      in (case parse content2 of
            Inl e \<Rightarrow> Inl e
          | Inr entities \<Rightarrow>
              if \<not> names_supported m then Inl Unsupported
              else
              (let content3 = tostring (Document (prolog entities)
                                          (update_entities_tree m (getroot entities))
                                          (epilog entities));
                   content4 = sub [9762] [12] content3;
                   content5 = sub [9763] [13] content4;
                   content6 = sub [9764] (lit ''&apos;'') content5;
                   content7 = sub (lit ''--><'') (lit ''-->'' @ [10, 60]) content6
               in Inr (xml_declaration @ [10] @ content7))))"

definition update_entities :: "masseur \<Rightarrow> str \<Rightarrow> str \<Rightarrow> fs \<Rightarrow> outcome" where
  "update_entities self in_path out_path fs =
     (case fs_lookup fs in_path of
        None \<Rightarrow> (Some FileNotFoundError, fs)
      | Some (Zip ms) \<Rightarrow> (Some Unsupported, fs)
      | Some (Plain content) \<Rightarrow>
          (case update_entities_content (user_name_map self) content of
             Inl e \<Rightarrow> (Some e, fs)
           | Inr out \<Rightarrow> (None, fs_write fs out_path (Plain out))))"

subsection \<open>\<open>unpack\<close>, \<open>pack\<close>, \<open>massage\<close>\<close>

definition open_zip :: "fs \<Rightarrow> str \<Rightarrow> error + (path \<times> file_content) list" where
  "open_zip fs path =
     (case fs_lookup fs path of
        None \<Rightarrow> Inl FileNotFoundError
      | Some (Plain s) \<Rightarrow> Inl BadZipFile
      | Some (Zip ms) \<Rightarrow> Inr ms)"

definition unpack :: "masseur \<Rightarrow> str \<Rightarrow> fs \<Rightarrow> outcome" where
  "unpack self export_zip_path fs =
     (case open_zip fs export_zip_path of
        Inl e \<Rightarrow> (Some e, fs)
      | Inr project_export_zip \<Rightarrow>
          (let fs1 = extractall project_export_zip (workspace_path (workspace self) None) fs
           in (case open_zip fs1 (data_zip_path self) of
                 Inl e \<Rightarrow> (Some e, fs1)
               | Inr data_zip \<Rightarrow>
                   (None, extractall data_zip (data_path (workspace self) None) fs1))))"

definition pack :: "masseur \<Rightarrow> str \<Rightarrow> fs \<Rightarrow> outcome" where
  "pack self export_zip_path fs =
     (let entities_xml_out_path = prepare_output_path self (entities_xml_path self);
          fs1 = fs_write fs (data_zip_path self) (Zip [])
      in (case fs_lookup fs1 (objects_xml_path self) of
            None \<Rightarrow> (Some FileNotFoundError, fs1)
          | Some objects \<Rightarrow>
              (let fs2 = fs_write fs1 (data_zip_path self) (Zip [([lit ''activeobjects.xml''], objects)])
               in (case fs_lookup fs2 entities_xml_out_path of
                     None \<Rightarrow> (Some FileNotFoundError, fs2)
                   | Some entities \<Rightarrow>
                       (let fs3 = fs_write fs2 (data_zip_path self)
                                    (Zip [([lit ''activeobjects.xml''], objects),
                                          ([lit ''entities.xml''], entities)]);
                            fs4 = unlink fs3 (objects_xml_path self);
                            fs5 = unlink fs4 entities_xml_out_path;
                            outfile = sub (92 # lit ''.zip'') (lit ''.fixed_users'') export_zip_path
                        in (None, make_archive fs5 outfile
                                    (workspace_path (workspace self) None)))))))"

definition massage :: "masseur \<Rightarrow> str \<Rightarrow> fs \<Rightarrow> outcome" where
  "massage self export_zip_path fs =
     and_then
       (and_then
          (and_then (unpack self export_zip_path fs)
             (update_config self (config_xml_path self)
                (prepare_output_path self (config_xml_path self))))
          (update_entities self (entities_xml_path self)
             (prepare_output_path self (entities_xml_path self))))
       (\<lambda>fs. if \<not> debug self then pack self export_zip_path fs else (None, fs))"

text \<open>
  \<open>main\<close>: \<open>with Masseur(config['user_name_map'], args.debug) as masseur:
  masseur.massage(args.file)\<close>; \<open>__exit__\<close> runs whether \<open>massage\<close> raised or not.
\<close>

definition main :: "user_name_map \<Rightarrow> bool \<Rightarrow> str \<Rightarrow> str \<Rightarrow> fs \<Rightarrow> outcome" where
  "main m dbg tmp export_zip_path fs =
     (let self = init m dbg tmp
      in (case massage self export_zip_path fs of (r, fs') \<Rightarrow> (r, exit self fs')))"

section \<open>Positions, and the rewrite in the words of the specification\<close>

text \<open>
  An element of a document is addressed by its position: the path of indices, counted
  among the element children, that leads to it from the root; \<open>[]\<close> is the root.
\<close>

fun is_element :: "node \<Rightarrow> bool" where
  "is_element (Element t a cs) = True"
| "is_element n = False"

fun elem_at :: "node \<Rightarrow> nat list \<Rightarrow> node option" where
  "elem_at n [] = Some n"
| "elem_at (Element t a cs) (i # p) =
     (if i < length (filter is_element cs) then elem_at (filter is_element cs ! i) p else None)"
| "elem_at n (i # p) = None"


text \<open>
  ``Replace every occurrence of \<open>old\<close> by \<open>new\<close>'': from left to right, occurrences that
  do not overlap, as \<open>str.replace\<close> does.
\<close>

function replace_all :: "str \<Rightarrow> str \<Rightarrow> str \<Rightarrow> str" where
  "replace_all old new [] = []"
| "replace_all old new (c # cs) =
     (if old \<noteq> [] \<and> starts_with old (c # cs)
      then new @ replace_all old new (drop (length old - 1) cs)
      else c # replace_all old new cs)"
  by pat_completeness auto
termination
  by (relation "measure (\<lambda>(old, new, s). length s)") auto

text \<open>
  The rule of the specification for one attribute value: for each entry of the map in
  order, a value equal to the old name becomes the new name, and otherwise every
  occurrence of the old name between two spaces is replaced by the new name between
  two spaces.
\<close>

fun spec_rename :: "user_name_map \<Rightarrow> str \<Rightarrow> str" where
  "spec_rename [] v = v"
| "spec_rename ((old, new) # m) v =
     spec_rename m (if v = old then new
                    else replace_all (32 # old @ [32]) (32 # new @ [32]) v)"

text \<open>
  The names for which the rule describes the code: an old name without special
  character of the pattern language, a new name without backslash and made of
  characters XML allows.
\<close>

definition plain_names :: "user_name_map \<Rightarrow> bool" where
  "plain_names m =
     list_all (\<lambda>(old, new). re_literal old \<and> repl_supported new \<and> list_all is_xml_char new) m"

definition matched :: "user_name_map \<Rightarrow> str \<Rightarrow> bool" where
  "matched m v = list_ex (\<lambda>(old, new). v = old \<or> occurs (32 # old @ [32]) v) m"

text \<open>
  A rewrite of attribute values only: \<open>g k v\<close> is the new value of the attribute \<open>k\<close> with
  the value \<open>v\<close>, on every element of a subtree, or on every element below the root.
\<close>

fun map_values :: "(str \<Rightarrow> str \<Rightarrow> str) \<Rightarrow> node \<Rightarrow> node" where
  "map_values g (Element t a cs) =
     Element t (map (\<lambda>(k, v). (k, g k v)) a) (map (map_values g) cs)"
| "map_values g n = n"

definition map_values_below :: "(str \<Rightarrow> str \<Rightarrow> str) \<Rightarrow> node \<Rightarrow> node" where
  "map_values_below g r =
     (case r of Element t a cs \<Rightarrow> Element t a (map (map_values g) cs) | _ \<Rightarrow> r)"

text \<open>
  The value \<open>update_entities\<close> gives an attribute below the root, in the words of the
  specification: one of the nineteen listed attributes that holds an old name, as the
  whole value or between two spaces, is renamed; then, in one of the twelve protected
  attributes, every single quote is replaced by the sentinel U+2624.
\<close>

definition rewritten_value :: "user_name_map \<Rightarrow> str \<Rightarrow> str \<Rightarrow> str" where
  "rewritten_value m k v =
     (let u = (if k \<in> set user_attrs \<and> matched m v then spec_rename m v else v)
      in if k \<in> set quoted_attrs then map (\<lambda>c. if c = 39 then 9764 else c) u else u)"

text \<open>The attributes of a subtree, and of the elements below the root, in document order.\<close>

fun attributes :: "node \<Rightarrow> (str \<times> str) list" where
  "attributes (Element t a cs) = a @ concat (map attributes cs)"
| "attributes n = []"

definition attributes_below :: "node \<Rightarrow> (str \<times> str) list" where
  "attributes_below r = (case r of Element t a cs \<Rightarrow> concat (map attributes cs) | _ \<Rightarrow> [])"

text \<open>
  And for the configuration: a subtree without the leading text of its elements with
  one of the six tags, and the tree without that text on the elements below the root,
  the root keeping its own.
\<close>

fun drop_user_text :: "node \<Rightarrow> node" where
  "drop_user_text (Element t a cs) =
     (let cs' = map drop_user_text cs
      in Element t a (if t \<in> set config_tags then dropWhile is_text cs' else cs'))"
| "drop_user_text n = n"

definition drop_user_text_below :: "node \<Rightarrow> node" where
  "drop_user_text_below r =
     (case r of Element t a cs \<Rightarrow> Element t a (map drop_user_text cs) | _ \<Rightarrow> r)"

definition renamed_text :: "user_name_map \<Rightarrow> str option \<Rightarrow> str option" where
  "renamed_text m t = map_option (\<lambda>s. case map_of m s of None \<Rightarrow> s | Some v \<Rightarrow> v) t"

section \<open>The characters of a document\<close>

text \<open>
  The characters a document carries, in document order: attribute values, text and
  comments. Names are left out; the parser admits ASCII names only.
\<close>

fun chars :: "node \<Rightarrow> str" where
  "chars (Element t a cs) = concat (map snd a) @ concat (map chars cs)"
| "chars (Text s) = s"
| "chars (Comment s) = s"

fun well_named :: "node \<Rightarrow> bool" where
  "well_named (Element t a cs) =
     (is_name t \<and> list_all (\<lambda>(k, v). is_name k) a \<and> distinct (map fst a)
      \<and> list_all well_named cs)"
| "well_named n = True"


fun token_named :: "token \<Rightarrow> bool" where
  "token_named (TOpen n a) = (is_name n \<and> list_all (\<lambda>(k, v). is_name k) a \<and> distinct (map fst a))"
| "token_named (TEmpty n a) = (is_name n \<and> list_all (\<lambda>(k, v). is_name k) a \<and> distinct (map fst a))"
| "token_named t = True"

text \<open>The form feed, the carriage return and the two sentinels that stand for them.\<close>

definition guarded :: "nat \<Rightarrow> bool" where
  "guarded c = (c = 12 \<or> c = 13 \<or> c = 9762 \<or> c = 9763)"



fun stack_named :: "(str \<times> (str \<times> str) list \<times> node list) list \<Rightarrow> bool" where
  "stack_named [] = True"
| "stack_named ((n, a, acc) # st) =
     (is_name n \<and> list_all (\<lambda>(k, v). is_name k) a \<and> distinct (map fst a)
      \<and> list_all well_named acc \<and> stack_named st)"

definition document_chars :: "document \<Rightarrow> str" where
  "document_chars d =
     concat (map chars (prolog d)) @ chars (getroot d) @ concat (map chars (epilog d))"

definition document_named :: "document \<Rightarrow> bool" where
  "document_named d =
     (list_all well_named (prolog d) \<and> well_named (getroot d) \<and> list_all well_named (epilog d))"

section \<open>The output with its quotes, in the words of the specification\<close>

text \<open>
  The document written as \<open>tostring\<close> writes it, except that in a protected attribute of
  an element below the root every single quote is written \<open>&apos;\<close>. The attributes of
  the root element are written as \<open>tostring\<close> writes them.
\<close>

definition escape_quoted :: "str \<Rightarrow> str" where
  "escape_quoted v = concat (map (\<lambda>c. if c = 39 then lit ''&apos;'' else escape_attr [c]) v)"

definition tostring_quoted_attrs :: "(str \<times> str) list \<Rightarrow> str" where
  "tostring_quoted_attrs a =
     concat (map (\<lambda>(k, v). 32 # k @ [61, 34]
                    @ (if k \<in> set quoted_attrs then escape_quoted v else escape_attr v) @ [34]) a)"

fun tostring_quoted_node :: "node \<Rightarrow> str" where
  "tostring_quoted_node (Element n a cs) =
     (if cs = [] then [60] @ n @ tostring_quoted_attrs a @ [47, 62]
      else [60] @ n @ tostring_quoted_attrs a @ [62] @ concat (map tostring_quoted_node cs)
           @ [60, 47] @ n @ [62])"
| "tostring_quoted_node (Text s) = escape_text s"
| "tostring_quoted_node (Comment s) = lit ''<!--'' @ s @ lit ''-->''"

definition tostring_quoted_root :: "node \<Rightarrow> str" where
  "tostring_quoted_root r =
     (case r of
        Element n a cs \<Rightarrow>
          (if cs = [] then [60] @ n @ tostring_attrs a @ [47, 62]
           else [60] @ n @ tostring_attrs a @ [62] @ concat (map tostring_quoted_node cs)
                @ [60, 47] @ n @ [62])
      | _ \<Rightarrow> tostring_node r)"

definition tostring_quoted :: "document \<Rightarrow> str" where
  "tostring_quoted d =
     concat (map tostring_node (prolog d)) @ tostring_quoted_root (getroot d)
     @ concat (map tostring_node (epilog d))"

section \<open>Example inputs\<close>

definition ex_map :: user_name_map where
  "ex_map = [(lit ''alice'', lit ''bob'')]"

definition ex_self :: masseur where
  "ex_self = init ex_map False (lit ''/tmp/tmpk3x'')"

definition ex_config :: str where
  "ex_config = lit ''<c><username>alice</username><lead>carol</lead></c>''"

definition ex_entities :: str where
  "ex_entities = lit ''<e><x user=\"alice\" summary=\"it's\"/></e>''"

definition ex_export :: "(path \<times> file_content) list" where
  "ex_export =
     [([lit ''config.xml''], Plain ex_config),
      ([lit ''data'', lit ''data.zip''],
       Zip [([lit ''activeobjects.xml''], Plain (lit ''<o/>'')),
            ([lit ''entities.xml''], Plain ex_entities)])]"

definition ex_fs :: fs where
  "ex_fs = [([lit ''in.zip''], Zip ex_export)]"

definition ex_unpacked :: fs where
  "ex_unpacked = snd (unpack ex_self (lit ''in.zip'') ex_fs)"

text \<open>An export whose nested archive is at the top level, so \<open>data/data.zip\<close> is missing,
  and one whose nested archive has no \<open>entities.xml\<close>.\<close>

definition ex_flat :: "(path \<times> file_content) list" where
  "ex_flat =
     [([lit ''config.xml''], Plain ex_config),
      ([lit ''data.zip''],
       Zip [([lit ''activeobjects.xml''], Plain (lit ''<o/>'')),
            ([lit ''entities.xml''], Plain ex_entities)])]"

definition ex_fs_flat :: fs where
  "ex_fs_flat = [([lit ''in.zip''], Zip ex_flat)]"

definition ex_no_entities :: "(path \<times> file_content) list" where
  "ex_no_entities =
     [([lit ''config.xml''], Plain ex_config),
      ([lit ''data'', lit ''data.zip''],
       Zip [([lit ''activeobjects.xml''], Plain (lit ''<o/>''))])]"

definition ex_fs_no_entities :: fs where
  "ex_fs_no_entities = [([lit ''in.zip''], Zip ex_no_entities)]"

definition ex_tree :: node where
  "ex_tree =
     Element (lit ''e'') []
       [Element (lit ''x'')
          [(lit ''user'', lit ''alice''), (lit ''author'', lit ''o'br alice ''),
           (lit ''owner'', lit ''malice alice''), (lit ''summary'', lit ''it's''),
           (lit ''note'', lit '' alice '')] []]"

definition ex_config_tree :: node where
  "ex_config_tree =
     Element (lit ''c'') []
       [Element (lit ''username'') [] [Text (lit ''alice'')],
        Element (lit ''lead'') [] [Text (lit ''carol'')]]"

definition ex_fs_nested_name :: fs where
  "ex_fs_nested_name = [([lit ''exports.zip.d'', lit ''in.zip''], Zip ex_export)]"



text \<open>An entities document with listed and protected attributes on the root element and
  below it, and one in which no listed attribute holds an old name.\<close>

definition ex_users :: str where
  "ex_users =
     lit ''<e user=\"alice\" summary=\"it's\"><x user=\"alice\" author=\"o'br alice \" owner=\"malice alice\" summary=\"it's\" note=\" alice \"/></e>''"

definition ex_users_tree :: node where
  "ex_users_tree =
     Element (lit ''e'') [(lit ''user'', lit ''alice''), (lit ''summary'', lit ''it's'')]
       [Element (lit ''x'')
          [(lit ''user'', lit ''alice''), (lit ''author'', lit ''o'br alice ''),
           (lit ''owner'', lit ''malice alice''), (lit ''summary'', lit ''it's''),
           (lit ''note'', lit '' alice '')] []]"

definition ex_users_out :: str where
  "ex_users_out =
     xml_declaration @ [10]
     @ lit ''<e user=\"alice\" summary=\"it's\"><x user=\"bob\" author=\"o&apos;br bob \" owner=\"malice alice\" summary=\"it&apos;s\" note=\" alice \"/></e>''"

definition ex_unmatched :: str where
  "ex_unmatched = lit ''<e><x user=\"carol\" owner=\"malice alice\" note=\" alice \"/></e>''"

definition ex_unmatched_tree :: node where
  "ex_unmatched_tree =
     Element (lit ''e'') []
       [Element (lit ''x'')
          [(lit ''user'', lit ''carol''), (lit ''owner'', lit ''malice alice''),
           (lit ''note'', lit '' alice '')] []]"

definition ex_packed_fs :: fs where
  "ex_packed_fs = snd (massage ex_self (lit ''in.zip'') ex_fs)"

section \<open>Files: lookup after write\<close>

lemma map_of_fs_update: "map_of (fs_update k f fs) q = (if q = k then Some f else map_of fs q)"
  by (induction fs) auto

lemma fs_lookup_write:
  "fs_lookup (fs_write fs p f) q = (if components q = components p then Some f else fs_lookup fs q)"
  by (simp add: fs_lookup_def fs_write_def map_of_fs_update)

lemma update_config_success:
  assumes "update_config self p out fs = (None, fs')"
  shows "\<exists>content config.
           fs_lookup fs p = Some (Plain content) \<and> parse content = Inr config \<and>
           values_supported (user_name_map self) \<and>
           fs' = fs_write fs out
                   (Plain (xml_declaration @ [10]
                           @ tostring (Document (prolog config)
                                         (update_config_tree (user_name_map self) (getroot config))
                                         (epilog config))))"
  using assms
  by (auto simp: update_config_def split: option.splits file_content.splits sum.splits if_splits)

lemma update_entities_success:
  assumes "update_entities self p out fs = (None, fs')"
  shows "\<exists>content res.
           fs_lookup fs p = Some (Plain content) \<and>
           update_entities_content (user_name_map self) content = Inr res \<and>
           fs' = fs_write fs out (Plain res)"
  using assms
  by (auto simp: update_entities_def split: option.splits file_content.splits sum.splits)

section \<open>\<open>re.sub\<close> on plain patterns\<close>

lemma re_compile_literal: "re_literal q \<Longrightarrow> re_compile q = map Lit q"
proof (induction q rule: re_compile.induct)
  case 1
  then show ?case by simp
next
  case (2 c)
  then show ?case by (simp add: re_literal_def)
next
  case (3 c d cs)
  then show ?case by (simp add: re_literal_def re_special_def)
qed

lemma match_prefix_literal: "match_prefix (map Lit q) s = starts_with q s"
proof (induction q arbitrary: s)
  case Nil
  then show ?case by (simp add: starts_with_def)
next
  case (Cons a q)
  then show ?case by (cases s) (auto simp: starts_with_def)
qed

lemma sub_items_literal: "sub_items (map Lit q) r s = replace_all q r s"
  by (induction q r s rule: replace_all.induct) (auto simp: match_prefix_literal)

lemma sub_literal: "re_literal q \<Longrightarrow> q \<noteq> [] \<Longrightarrow> sub q r s = replace_all q r s"
  by (simp add: sub_def re_compile_literal sub_items_literal)

lemma re_literal_token: "re_literal k \<Longrightarrow> re_literal (32 # k @ [32])"
  by (simp add: re_literal_def re_special_def lit_def)

lemma rename_spec: "plain_names m \<Longrightarrow> rename m v = spec_rename m v"
  by (induction m v rule: rename.induct) (simp_all add: plain_names_def sub_literal re_literal_token)

lemma replace_all_absent: "\<not> occurs q s \<Longrightarrow> replace_all q r s = s"
  by (induction q r s rule: replace_all.induct) auto

lemma replace_all_char:
  "replace_all [a] r s = concat (map (\<lambda>c. if c = a then r else [c]) s)"
  by (induction s) (simp_all add: starts_with_def)

lemma sub_char:
  "a \<noteq> 46 \<Longrightarrow> a \<notin> set re_special \<Longrightarrow> sub [a] r s = concat (map (\<lambda>c. if c = a then r else [c]) s)"
  by (simp add: sub_literal re_literal_def replace_all_char)

section \<open>Attribute rewrites, position by position\<close>


lemma is_element_map_attr [simp]: "is_element (map_attr_subtree name f n) = is_element n"
  by (cases n) simp_all






lemma distinct_user_attrs: "distinct user_attrs"
  by (simp add: user_attrs_def lit_def)

lemma distinct_quoted_attrs: "distinct quoted_attrs"
  by (simp add: quoted_attrs_def lit_def)

lemma user_pass_fold:
  "foldl (update_attributes m) r ns = foldl (\<lambda>r a. map_attr_descendants a (rename m) r) r ns"
  by (induction ns arbitrary: r) (simp_all add: update_attributes_def)



lemma spec_rename_unmatched:
  "\<forall>(old, new) \<in> set m. v \<noteq> old \<and> \<not> occurs (32 # old @ [32]) v \<Longrightarrow> spec_rename m v = v"
  by (induction m) (auto simp: replace_all_absent)

lemma escape_attr_concat: "escape_attr s = concat (map (\<lambda>c. escape_attr [c]) s)"
  by (induction s) simp_all

lemma quote_sentinel_plain: "39 \<noteq> (46::nat) \<and> 39 \<notin> set re_special \<and> 9764 \<noteq> (46::nat) \<and> 9764 \<notin> set re_special"
  by (simp add: re_special_def lit_def)

lemma sub_quote: "sub [39] [9764] u = map (\<lambda>c. if c = 39 then 9764 else c) u"
proof -
  have "concat (map (\<lambda>c. if c = 39 then [9764] else [c]) u) = map (\<lambda>c. if c = 39 then 9764 else c) u"
    by (induction u) simp_all
  then show ?thesis using quote_sentinel_plain by (simp add: sub_char)
qed

section \<open>The configuration rewrite, position by position\<close>

lemma is_text_update_subtree [simp]: "is_text (update_subtree m name n) = is_text n"
  by (cases n) (simp_all add: Let_def)

lemma is_element_update_subtree [simp]: "is_element (update_subtree m name n) = is_element n"
  by (cases n) (simp_all add: Let_def)

lemma text_of_update_subtree [simp]: "is_text n \<Longrightarrow> update_subtree m name n = n"
  by (cases n) simp_all

lemma filter_elements_dropWhile_text:
  "filter is_element (dropWhile is_text cs) = filter is_element cs"
proof (induction cs)
  case Nil
  then show ?case by simp
next
  case (Cons c cs)
  then show ?case by (cases c) simp_all
qed

lemma filter_elements_update_text: "filter is_element (update_text m cs) = filter is_element cs"
  by (simp add: update_text_def set_text_def filter_elements_dropWhile_text split: option.splits)

lemma filter_elements_map_update:
  "filter is_element (map (update_subtree m name) cs)
   = map (update_subtree m name) (filter is_element cs)"
  by (induction cs) simp_all

lemma takeWhile_text_map_update:
  "takeWhile is_text (map (update_subtree m name) cs) = takeWhile is_text cs"
  by (induction cs) simp_all

lemma get_text_map_update: "get_text (map (update_subtree m name) cs) = get_text cs"
  by (simp add: get_text_def takeWhile_text_map_update)

lemma takeWhile_dropWhile_same: "takeWhile P (dropWhile P xs) = []"
  by (induction xs) simp_all

lemma get_text_set_text: "get_text (set_text v cs) = Some v"
  by (simp add: get_text_def set_text_def takeWhile_dropWhile_same)


lemma get_text_update_text: "get_text (update_text m cs) = renamed_text m (get_text cs)"
  by (auto simp: update_text_def renamed_text_def get_text_set_text split: option.splits)

lemma elem_at_update_subtree:
  "elem_at (update_subtree m name n) p = map_option (update_subtree m name) (elem_at n p)"
proof (induction p arbitrary: n)
  case Nil
  then show ?case by simp
next
  case (Cons i p)
  then show ?case
    by (cases n) (simp_all add: Let_def filter_elements_update_text filter_elements_map_update)
qed

lemma elem_at_update_children:
  "p \<noteq> [] \<Longrightarrow>
   elem_at (update_children m r name) p = map_option (update_subtree m name) (elem_at r p)"
proof (cases r)
  case (Element t a cs)
  assume "p \<noteq> []"
  then obtain i q where p: "p = i # q" by (cases p) auto
  show ?thesis
    using Element p
    by (simp add: update_children_def filter_elements_map_update elem_at_update_subtree)
next
  case (Text s)
  assume "p \<noteq> []"
  then show ?thesis using Text by (cases p) (simp_all add: update_children_def)
next
  case (Comment s)
  assume "p \<noteq> []"
  then show ?thesis using Comment by (cases p) (simp_all add: update_children_def)
qed

lemma elem_at_foldl_update_children:
  "p \<noteq> [] \<Longrightarrow>
   elem_at (foldl (update_children m) r ns) p
   = map_option (\<lambda>e. foldl (\<lambda>n name. update_subtree m name n) e ns) (elem_at r p)"
proof (induction ns arbitrary: r)
  case Nil
  then show ?case by (simp add: option.map_ident)
next
  case (Cons n ns)
  then show ?case by (simp add: elem_at_update_children option.map_comp comp_def)
qed

lemma update_subtree_top:
  "\<exists>cs'. update_subtree m name (Element t a cs) = Element t a cs'
         \<and> get_text cs' = (if t = name then renamed_text m (get_text cs) else get_text cs)"
  by (simp add: Let_def get_text_update_text get_text_map_update)

lemma foldl_update_subtree_top:
  "distinct ns \<Longrightarrow>
   \<exists>cs'. foldl (\<lambda>n name. update_subtree m name n) (Element t a cs) ns = Element t a cs'
         \<and> get_text cs' = (if t \<in> set ns then renamed_text m (get_text cs) else get_text cs)"
proof (induction ns arbitrary: cs)
  case Nil
  then show ?case by simp
next
  case (Cons n ns)
  obtain cs1 where 1: "update_subtree m n (Element t a cs) = Element t a cs1"
      "get_text cs1 = (if t = n then renamed_text m (get_text cs) else get_text cs)"
    using update_subtree_top by blast
  from Cons have "distinct ns" "n \<notin> set ns" by simp_all
  from Cons.IH[OF this(1), of cs1] obtain cs' where
    2: "foldl (\<lambda>n name. update_subtree m name n) (Element t a cs1) ns = Element t a cs'"
       "get_text cs' = (if t \<in> set ns then renamed_text m (get_text cs1) else get_text cs1)"
    by blast
  show ?case using 1 2 \<open>n \<notin> set ns\<close> by auto
qed

lemma distinct_config_tags: "distinct config_tags"
  by (simp add: config_tags_def lit_def)

subsection \<open>What the configuration rewrite leaves alone\<close>

lemma is_text_drop_user_text [simp]: "is_text (drop_user_text n) = is_text n"
  by (cases n) (simp_all add: Let_def)

lemma dropWhile_text_map_drop:
  "dropWhile is_text (map drop_user_text cs) = map drop_user_text (dropWhile is_text cs)"
  by (induction cs) simp_all

lemma dropWhile_dropWhile_same: "dropWhile P (dropWhile P xs) = dropWhile P xs"
  by (induction xs) simp_all

lemma dropWhile_text_update_text:
  "dropWhile is_text (update_text m cs) = dropWhile is_text cs"
  by (simp add: update_text_def set_text_def dropWhile_dropWhile_same split: option.splits)

lemma drop_user_text_update_subtree:
  "name \<in> set config_tags \<Longrightarrow> drop_user_text (update_subtree m name n) = drop_user_text n"
proof (induction n)
  case (Element t a cs)
  then have kids: "map drop_user_text (map (update_subtree m name) cs) = map drop_user_text cs"
    by simp
  show ?case
  proof (cases "t = name")
    case True
    have "dropWhile is_text (map drop_user_text (update_text m (map (update_subtree m name) cs)))
          = map drop_user_text (dropWhile is_text (map (update_subtree m name) cs))"
      by (simp add: dropWhile_text_map_drop dropWhile_text_update_text)
    also have "\<dots> = dropWhile is_text (map drop_user_text (map (update_subtree m name) cs))"
      by (simp only: dropWhile_text_map_drop)
    also have "\<dots> = dropWhile is_text (map drop_user_text cs)"
      by (simp only: kids)
    finally show ?thesis using True Element.prems by (simp add: Let_def del: map_map)
  next
    case False
    then show ?thesis using kids by (simp add: Let_def del: map_map)
  qed
qed simp_all

lemma drop_user_text_update_children:
  "name \<in> set config_tags \<Longrightarrow>
   drop_user_text_below (update_children m r name) = drop_user_text_below r"
  by (cases r)
     (simp_all add: update_children_def drop_user_text_below_def drop_user_text_update_subtree
                    comp_def)

lemma drop_user_text_foldl:
  "set ns \<subseteq> set config_tags \<Longrightarrow>
   drop_user_text_below (foldl (update_children m) r ns) = drop_user_text_below r"
  by (induction ns arbitrary: r) (simp_all add: drop_user_text_update_children)

lemma update_children_root:
  "\<exists>cs'. foldl (update_children m) (Element t a cs) ns = Element t a cs' \<and> get_text cs' = get_text cs"
proof (induction ns arbitrary: cs)
  case Nil
  then show ?case by simp
next
  case (Cons n ns)
  have "update_children m (Element t a cs) n = Element t a (map (update_subtree m n) cs)"
    by (simp add: update_children_def)
  moreover from Cons[of "map (update_subtree m n) cs"] obtain cs' where
    "foldl (update_children m) (Element t a (map (update_subtree m n) cs)) ns = Element t a cs'"
    "get_text cs' = get_text (map (update_subtree m n) cs)"
    by blast
  ultimately show ?case by (simp add: get_text_map_update)
qed

section \<open>Paths of the workspace\<close>






lemma sub_items_skip:
  "46 \<notin> set a \<Longrightarrow> sub_items (Lit 46 # p) r (a @ b) = a @ sub_items (Lit 46 # p) r b"
  by (induction a) auto



text \<open>Where the only \<open>.zip\<close> of the path is its extension, \<open>pack\<close> names the archive
  \<open><base>.fixed_users.zip\<close>.\<close>

lemma archive_name_of_plain_path:
  assumes "46 \<notin> set base"
  shows "sub (92 # lit ''.zip'') (lit ''.fixed_users'') (base @ lit ''.zip'') @ lit ''.zip''
         = base @ lit ''.fixed_users.zip''"
proof -
  have c: "re_compile (92 # lit ''.zip'') = [Lit 46, Lit 122, Lit 105, Lit 112]"
    by code_simp
  have e: "sub_items [Lit 46, Lit 122, Lit 105, Lit 112] (lit ''.fixed_users'') (lit ''.zip'')
           = lit ''.fixed_users''"
    by code_simp
  have "lit ''.fixed_users'' @ lit ''.zip'' = lit ''.fixed_users.zip''" by (simp add: lit_def)
  then show ?thesis using assms e by (simp add: sub_def c sub_items_skip)
qed

section \<open>What a step writes\<close>





section \<open>The parser gives elements their names once\<close>

lemma map_sum_Inr: "map_sum id f x = Inr t \<Longrightarrow> \<exists>t'. x = Inr t' \<and> t = f t'"
  by (cases x) auto

lemma name_check_Inr: "name_check n = Inr u \<Longrightarrow> is_name n"
  by (simp add: name_check_def split: if_splits)

declare parse_attrs.simps [simp del]

lemma parse_attrs_unfold:
  assumes "parse_attrs s = Inr a"
    and "s1 = dropWhile is_space s"
    and "n = takeWhile name_like s1"
    and "s2 = dropWhile is_space (dropWhile name_like s1)"
    and "s3 = dropWhile is_space (tl s2)"
    and "v = takeWhile (\<lambda>c. c \<noteq> hd s3) (tl s3)"
    and "s4 = dropWhile (\<lambda>c. c \<noteq> hd s3) (tl s3)"
  shows "(s1 = [] \<and> a = [])
       \<or> (\<exists>w a'. s2 \<noteq> [] \<and> hd s2 = 61 \<and> s3 \<noteq> [] \<and> (hd s3 = 34 \<or> hd s3 = 39) \<and> s4 \<noteq> []
              \<and> is_name n \<and> attr_value v = Inr w \<and> parse_attrs (tl s4) = Inr a'
              \<and> n \<notin> set (map fst a') \<and> a = (n, w) # a')"
  using assms(1) unfolding assms(2-)
  by (subst (asm) parse_attrs.simps)
     (auto simp: Let_def simp del: dropWhile_eq_Nil_conv split: if_splits sum.splits
           dest: name_check_Inr)

lemma starts_with_split:
  assumes "starts_with p s"
  shows "s = p @ drop (length p) s"
proof -
  have "take (length p) s @ drop (length p) s = s" by (rule append_take_drop_id)
  moreover have "take (length p) s = p" using assms by (simp add: starts_with_def)
  ultimately show ?thesis by simp
qed

lemma parse_attrs_named:
  "parse_attrs s = Inr a \<Longrightarrow> list_all (\<lambda>(k, v). is_name k) a \<and> distinct (map fst a)"
proof (induction "length s" arbitrary: s a rule: less_induct)
  case less
  define s1 where "s1 = dropWhile is_space s"
  define n where "n = takeWhile name_like s1"
  define s2 where "s2 = dropWhile is_space (dropWhile name_like s1)"
  define s3 where "s3 = dropWhile is_space (tl s2)"
  define v where "v = takeWhile (\<lambda>c. c \<noteq> hd s3) (tl s3)"
  define s4 where "s4 = dropWhile (\<lambda>c. c \<noteq> hd s3) (tl s3)"
  from parse_attrs_unfold[OF less.prems s1_def n_def s2_def s3_def v_def s4_def]
  show ?case
  proof
    assume "s1 = [] \<and> a = []"
    then show ?thesis by simp
  next
    assume "\<exists>w a'. s2 \<noteq> [] \<and> hd s2 = 61 \<and> s3 \<noteq> [] \<and> (hd s3 = 34 \<or> hd s3 = 39) \<and> s4 \<noteq> []
              \<and> is_name n \<and> attr_value v = Inr w \<and> parse_attrs (tl s4) = Inr a'
              \<and> n \<notin> set (map fst a') \<and> a = (n, w) # a'"
    then obtain w a' where f: "s4 \<noteq> []" "is_name n" "parse_attrs (tl s4) = Inr a'"
        "n \<notin> set (map fst a')" "a = (n, w) # a'"
      by blast
    have "length s4 \<le> length (tl s3)" unfolding s4_def by (rule length_dropWhile_le)
    also have "\<dots> \<le> length s3" by simp
    also have "\<dots> \<le> length (tl s2)" unfolding s3_def by (rule length_dropWhile_le)
    also have "\<dots> \<le> length s2" by simp
    also have "\<dots> \<le> length (dropWhile name_like s1)"
      unfolding s2_def by (rule length_dropWhile_le)
    also have "\<dots> \<le> length s1" by (rule length_dropWhile_le)
    also have "\<dots> \<le> length s" unfolding s1_def by (rule length_dropWhile_le)
    finally have "length s4 \<le> length s" .
    moreover have "length (tl s4) < length s4" using f(1) by (cases s4) auto
    ultimately have "length (tl s4) < length s" by simp
    from less.hyps[OF this f(3)] f(2,4,5) show ?thesis by simp
  qed
qed

lemma parse_tag_named: "parse_tag m = Inr tok \<Longrightarrow> token_named tok"
proof (cases m)
  case Nil
  assume "parse_tag m = Inr tok"
  with Nil show ?thesis by (simp add: parse_tag_def)
next
  case (Cons c cs)
  assume p: "parse_tag m = Inr tok"
  show ?thesis
  proof (cases "c = 47")
    case True
    with p Cons have "tok = TClose (takeWhile name_like cs)"
      by (auto simp: parse_tag_def Let_def split: if_splits sum.splits)
    then show ?thesis by simp
  next
    case False
    let ?body = "if last m = 47 then butlast m else m"
    let ?n = "takeWhile name_like ?body"
    let ?r = "dropWhile name_like ?body"
    from p Cons False obtain a where a: "is_name ?n" "parse_attrs ?r = Inr a"
      "tok = (if last m = 47 then TEmpty ?n a else TOpen ?n a)"
      by (auto simp: parse_tag_def Let_def split: if_splits sum.splits dest: name_check_Inr)
    from parse_attrs_named[OF a(2)] a(1,3) show ?thesis by (cases "last m = 47") simp_all
  qed
qed

lemma split_on_append: "split_on q s = Some (b, rest) \<Longrightarrow> s = b @ q @ rest"
proof (induction s arbitrary: b)
  case Nil
  then show ?case by simp
next
  case (Cons c s)
  show ?case
  proof (cases "starts_with q (c # s)")
    case True
    then have "c # s = q @ drop (length q) (c # s)" by (rule starts_with_split)
    moreover from Cons.prems True have "b = []" "rest = drop (length q) (c # s)" by simp_all
    ultimately show ?thesis by simp
  next
    case False
    with Cons.prems obtain b' where "split_on q s = Some (b', rest)" "b = c # b'"
      by auto
    with Cons.IH show ?thesis by simp
  qed
qed

lemma scan_tag_append: "scan_tag q s = Some (m, rest) \<Longrightarrow> s = m @ 62 # rest"
proof (induction s arbitrary: q m)
  case Nil
  then show ?case by simp
next
  case (Cons c s)
  show ?case
  proof (cases "q = 0 \<and> c = 62")
    case True
    with Cons.prems show ?thesis by simp
  next
    case False
    with Cons.prems obtain m' q' where "scan_tag q' s = Some (m', rest)" "m = c # m'"
      by (auto split: if_splits)
    with Cons.IH show ?thesis by simp
  qed
qed

lemma lex_comment:
  assumes "starts_with (lit ''!--'') cs" and "lex (60 # cs) = Inr toks"
  shows "\<exists>b rest toks'. split_on (lit ''-->'') (drop 3 cs) = Some (b, rest) \<and> lex rest = Inr toks'
           \<and> toks = TComment b # toks'"
  using assms by (auto split: option.splits if_splits dest: map_sum_Inr)

lemma lex_tag:
  assumes "\<not> starts_with (lit ''!--'') cs" and "lex (60 # cs) = Inr toks"
  shows "\<exists>m rest tok toks'. scan_tag 0 cs = Some (m, rest) \<and> parse_tag m = Inr tok
           \<and> lex rest = Inr toks' \<and> toks = tok # toks'"
  using assms by (auto split: option.splits if_splits sum.splits dest: map_sum_Inr)

lemma lex_text:
  assumes "c \<noteq> 60" and "lex (c # cs) = Inr toks"
  shows "\<exists>t toks'. unescape (c # takeWhile (\<lambda>x. x \<noteq> 60) cs) = Inr t
           \<and> lex (dropWhile (\<lambda>x. x \<noteq> 60) cs) = Inr toks'
           \<and> toks = TText (c # takeWhile (\<lambda>x. x \<noteq> 60) cs) t # toks'"
  using assms
  by (auto simp: Let_def simp del: unescape.simps occurs.simps split: sum.splits if_splits
           dest: map_sum_Inr)

lemma lex_named: "lex s = Inr toks \<Longrightarrow> list_all token_named toks"
proof (induction "length s" arbitrary: s toks rule: less_induct)
  case less
  show ?case
  proof (cases s)
    case Nil
    with less.prems show ?thesis by simp
  next
    case (Cons c cs)
    show ?thesis
    proof (cases "c = 60")
      case lt: True
      show ?thesis
      proof (cases "starts_with (lit ''!--'') cs")
        case True
        from lex_comment[OF True] less.prems Cons lt
        obtain b rest toks' where f: "split_on (lit ''-->'') (drop 3 cs) = Some (b, rest)"
          "lex rest = Inr toks'" "toks = TComment b # toks'"
          by blast
        have "length rest \<le> length (drop 3 cs)" using split_on_append[OF f(1)] by simp
        then have "length rest < length s" using Cons by simp
        from less.hyps[OF this f(2)] f(3) show ?thesis by simp
      next
        case False
        from lex_tag[OF False] less.prems Cons lt
        obtain m rest tok toks' where f: "scan_tag 0 cs = Some (m, rest)" "parse_tag m = Inr tok"
          "lex rest = Inr toks'" "toks = tok # toks'"
          by blast
        have "length rest < length s" using scan_tag_append[OF f(1)] Cons by simp
        from less.hyps[OF this f(3)] parse_tag_named[OF f(2)] f(4) show ?thesis by simp
      qed
    next
      case False
      let ?rest = "dropWhile (\<lambda>x. x \<noteq> 60) cs"
      from lex_text[OF False] less.prems Cons
      obtain t toks' where f: "lex ?rest = Inr toks'"
        "toks = TText (c # takeWhile (\<lambda>x. x \<noteq> 60) cs) t # toks'"
        by blast
      have "length ?rest < length s"
        using length_dropWhile_le[of "\<lambda>x. x \<noteq> 60" cs] Cons by simp
      from less.hyps[OF this f(1)] f(2) show ?thesis by simp
    qed
  qed
qed


lemma build_named:
  "build st acc toks = Some nodes \<Longrightarrow> list_all token_named toks \<Longrightarrow> stack_named st \<Longrightarrow>
   list_all well_named acc \<Longrightarrow> list_all well_named nodes"
  by (induction st acc toks rule: build.induct) (auto split: if_splits)

lemma parse_unfold:
  assumes "parse s = Inr d"
  shows "\<exists>body toks nodes n a cs ep.
           strip_declaration (normalize_newlines s) = Inr body
         \<and> lex body = Inr toks
         \<and> build [] [] toks = Some nodes
         \<and> dropWhile is_comment (filter (\<lambda>n. \<not> is_blank n) nodes) = Element n a cs # ep
         \<and> d = Document (takeWhile is_comment (filter (\<lambda>n. \<not> is_blank n) nodes))
                 (Element n a cs) ep"
proof -
  from assms obtain body where sd: "strip_declaration (normalize_newlines s) = Inr body"
    by (cases "strip_declaration (normalize_newlines s)")
       (simp_all add: parse_def split: if_splits)
  from assms obtain toks where l: "lex body = Inr toks"
    by (cases "lex body") (simp_all add: parse_def sd split: if_splits)
  from assms obtain nodes where b: "build [] [] toks = Some nodes"
    by (cases "build [] [] toks") (simp_all add: parse_def sd l split: if_splits)
  let ?rest = "dropWhile is_comment (filter (\<lambda>n. \<not> is_blank n) nodes)"
  from assms have q: "(case ?rest of
                        Element n a cs # ep \<Rightarrow>
                          if list_all is_comment ep
                          then Inr (Document
                                      (takeWhile is_comment (filter (\<lambda>n. \<not> is_blank n) nodes))
                                      (Element n a cs) ep)
                          else Inl XMLSyntaxError
                      | _ \<Rightarrow> Inl XMLSyntaxError) = Inr d"
    by (simp add: parse_def sd l b Let_def split: if_splits)
  obtain n a cs ep where r: "?rest = Element n a cs # ep"
  proof (cases ?rest)
    case Nil
    with q show ?thesis by simp
  next
    case (Cons x ep)
    with q that show ?thesis by (cases x) simp_all
  qed
  from q have "d = Document (takeWhile is_comment (filter (\<lambda>n. \<not> is_blank n) nodes))
                 (Element n a cs) ep"
    unfolding r by (simp split: if_splits)
  with sd l b r show ?thesis by blast
qed

lemma parse_named:
  assumes "parse s = Inr d"
  shows "document_named d"
proof -
  from parse_unfold[OF assms] obtain body toks nodes n a cs ep where
    l: "lex body = Inr toks" and b: "build [] [] toks = Some nodes"
    and t: "dropWhile is_comment (filter (\<lambda>n. \<not> is_blank n) nodes) = Element n a cs # ep"
       "d = Document (takeWhile is_comment (filter (\<lambda>n. \<not> is_blank n) nodes)) (Element n a cs) ep"
    by blast
  let ?top = "filter (\<lambda>n. \<not> is_blank n) nodes"
  have "list_all well_named nodes" using build_named[OF b lex_named[OF l]] by simp
  then have top: "list_all well_named ?top" by (simp add: list_all_iff)
  have 1: "list_all well_named (takeWhile is_comment ?top)"
    using top by (auto simp: list_all_iff dest: set_takeWhileD)
  have "list_all well_named (dropWhile is_comment ?top)"
    using top by (auto simp: list_all_iff dest: set_dropWhileD)
  then have "well_named (Element n a cs)" "list_all well_named ep"
    unfolding t(1) by simp_all
  with 1 show ?thesis unfolding t(2) document_named_def by simp
qed

section \<open>Parsing keeps the guarded characters\<close>

lemma guarded_simps [simp]:
  "guarded 12" "guarded 13" "guarded 9762" "guarded 9763"
  "\<not> guarded 60" "\<not> guarded 62" "\<not> guarded 38" "\<not> guarded 34" "\<not> guarded 39" "\<not> guarded 47"
  "\<not> guarded 61" "\<not> guarded 32" "\<not> guarded 10" "\<not> guarded 9" "\<not> guarded 45" "\<not> guarded 33"
  by (simp_all add: guarded_def)







lemma filter_guarded_lit [simp]:
  "filter guarded (lit ''lt;'') = []" "filter guarded (lit ''gt;'') = []"
  "filter guarded (lit ''amp;'') = []" "filter guarded (lit ''quot;'') = []"
  "filter guarded (lit ''apos;'') = []" "filter guarded (lit ''-->'') = []"
  "filter guarded (lit ''!--'') = []" "filter guarded (lit ''?>'') = []"
  "filter guarded (lit ''<?xml'') = []"
  by (simp_all add: lit_def guarded_def)



subsection \<open>Text without carriage return and without character reference\<close>

lemma occurs_Nil [simp]: "occurs [] s"
  by (cases s) (simp_all add: starts_with_def)

















lemma hd_dropWhile_split: "s \<noteq> [] \<Longrightarrow> s = hd s # tl s"
  by simp












section \<open>The rewrite and the serialiser keep the guarded characters\<close>















section \<open>Sentinels in and out\<close>

lemma sub_char_map:
  "a \<noteq> 46 \<Longrightarrow> a \<notin> set re_special \<Longrightarrow> sub [a] [b] s = map (\<lambda>c. if c = a then b else c) s"
proof -
  have "concat (map (\<lambda>c. if c = a then [b] else [c]) s) = map (\<lambda>c. if c = a then b else c) s"
    by (induction s) simp_all
  then show "a \<noteq> 46 \<Longrightarrow> a \<notin> set re_special \<Longrightarrow> ?thesis" by (simp add: sub_char)
qed

lemma control_plain:
  "12 \<noteq> (46::nat) \<and> 12 \<notin> set re_special \<and> 13 \<noteq> (46::nat) \<and> 13 \<notin> set re_special
   \<and> 9762 \<noteq> (46::nat) \<and> 9762 \<notin> set re_special \<and> 9763 \<noteq> (46::nat) \<and> 9763 \<notin> set re_special"
  by (simp add: re_special_def lit_def)


lemma decode_map:
  "sub [9763] [13] (sub [9762] [12] s)
   = map (\<lambda>c. if c = 9762 then 12 else if c = 9763 then 13 else c) s"
  using control_plain by (simp add: sub_char_map)








section \<open>The entities rewrite as one map over the attribute values\<close>

lemma update_entities_content_success:
  assumes "update_entities_content m content = Inr out"
  shows "\<exists>d. parse (sub [13] [9763] (sub [12] [9762] content)) = Inr d \<and> names_supported m
           \<and> out = xml_declaration @ [10]
                   @ sub (lit ''--><'') (lit ''-->'' @ [10, 60])
                       (sub [9764] (lit ''&apos;'')
                          (sub [9763] [13]
                             (sub [9762] [12]
                                (tostring (Document (prolog d)
                                             (update_entities_tree m (getroot d))
                                             (epilog d))))))"
  using assms
  by (auto simp: update_entities_content_def Let_def split: sum.splits if_splits)

lemma update_entities_content_result:
  assumes "parse (sub [13] [9763] (sub [12] [9762] content)) = Inr d" and "names_supported m"
  shows "update_entities_content m content
         = Inr (xml_declaration @ [10]
                @ sub (lit ''--><'') (lit ''-->'' @ [10, 60])
                    (sub [9764] (lit ''&apos;'')
                       (sub [9763] [13]
                          (sub [9762] [12]
                             (tostring (Document (prolog d)
                                          (update_entities_tree m (getroot d))
                                          (epilog d)))))))"
  using assms by (simp add: update_entities_content_def Let_def)

lemma re_literal_supported: "re_literal p \<Longrightarrow> re_supported p"
  by (simp add: re_literal_def re_supported_def)

lemma plain_names_supported: "plain_names m \<Longrightarrow> names_supported m"
  by (induction m)
     (auto simp: plain_names_def names_supported_def values_supported_def re_literal_supported)

lemma map_values_id: "map_values (\<lambda>k v. v) n = n"
  by (induction n) (simp_all add: map_idI)

lemma map_values_comp:
  "map_values g (map_values h n) = map_values (\<lambda>k v. g k (h k v)) n"
  by (induction n) (auto split: prod.splits)

lemma map_values_cong:
  "(\<And>k v. (k, v) \<in> set (attributes n) \<Longrightarrow> g k v = h k v) \<Longrightarrow> map_values g n = map_values h n"
proof (induction n)
  case (Element t a cs)
  have "map (\<lambda>(k, v). (k, g k v)) a = map (\<lambda>(k, v). (k, h k v)) a"
    using Element.prems by auto
  moreover have "map (map_values g) cs = map (map_values h) cs"
    using Element by auto
  ultimately show ?case by simp
qed simp_all

lemma map_values_below_cong:
  "(\<And>k v. (k, v) \<in> set (attributes_below r) \<Longrightarrow> g k v = h k v) \<Longrightarrow>
   map_values_below g r = map_values_below h r"
proof (cases r)
  case (Element t a cs)
  assume "\<And>k v. (k, v) \<in> set (attributes_below r) \<Longrightarrow> g k v = h k v"
  then have "map (map_values g) cs = map (map_values h) cs"
    using Element by (auto simp: attributes_below_def intro!: map_values_cong)
  then show ?thesis using Element by (simp add: map_values_below_def)
qed (simp_all add: map_values_below_def)

lemma well_named_map_values [simp]: "well_named (map_values g n) = well_named n"
proof (induction n)
  case (Element t a cs)
  have "fst \<circ> (\<lambda>(k, v). (k, g k v)) = fst" by (auto simp: fun_eq_iff)
  then have "map fst (map (\<lambda>(k, v). (k, g k v)) a) = map fst a" by simp
  moreover have "list_all (\<lambda>(k, v). is_name k) (map (\<lambda>(k, v). (k, g k v)) a)
                 = list_all (\<lambda>(k, v). is_name k) a"
    by (induction a) auto
  moreover have "list_all well_named (map (map_values g) cs) = list_all well_named cs"
    using Element by (induction cs) auto
  ultimately show ?case by (simp del: map_map)
qed simp_all

lemma well_named_map_values_below:
  "well_named r \<Longrightarrow> well_named (map_values_below g r)"
proof (cases r)
  case (Element t a cs)
  assume "well_named r"
  moreover have "list_all well_named (map (map_values g) cs) = list_all well_named cs"
    by (induction cs) auto
  ultimately show ?thesis using Element by (simp add: map_values_below_def)
qed (simp_all add: map_values_below_def)

lemma attrib_set_map:
  assumes "distinct (map fst a)" and "map_of a name = Some v"
  shows "attrib_set name (f v) a = map (\<lambda>(k, x). (k, if k = name then f x else x)) a"
proof -
  have in_a: "name \<in> fst ` set a" using assms(2) by (metis map_of_eq_None_iff option.distinct(1))
  have "map (\<lambda>(k, x). if k = name then (k, f v) else (k, x)) b
        = map (\<lambda>(k, x). (k, if k = name then f x else x)) b"
    if "distinct (map fst b)" "map_of b name = Some v" for b
    using that
  proof (induction b)
    case Nil
    then show ?case by simp
  next
    case (Cons e b)
    obtain k x where e: "e = (k, x)" by (cases e)
    show ?case
    proof (cases "k = name")
      case True
      then have "name \<notin> fst ` set b" using Cons.prems(1) e by simp
      then have "map (\<lambda>(k, x). if k = name then (k, f v) else (k, x)) b = b"
        "map (\<lambda>(k, x). (k, if k = name then f x else x)) b = b"
        by (induction b) auto
      moreover have "x = v" using Cons.prems(2) e True by simp
      ultimately show ?thesis using e True by simp
    next
      case False
      then show ?thesis using Cons e by simp
    qed
  qed
  from this[OF assms] in_a show ?thesis by (simp add: attrib_set_def)
qed

lemma attrib_map_absent:
  "map_of a name = None \<Longrightarrow> map (\<lambda>(k, x). (k, if k = name then f x else x)) a = a"
proof -
  assume "map_of a name = None"
  then have "name \<notin> fst ` set a" by (simp add: map_of_eq_None_iff)
  then show ?thesis by (induction a) auto
qed

lemma map_attr_subtree_values:
  "well_named n \<Longrightarrow>
   map_attr_subtree name f n = map_values (\<lambda>k v. if k = name then f v else v) n"
proof (induction n)
  case (Element t a cs)
  from Element.prems have d: "distinct (map fst a)" and kids: "list_all well_named cs"
    by simp_all
  have a: "(case map_of a name of None \<Rightarrow> a | Some v \<Rightarrow> attrib_set name (f v) a)
           = map (\<lambda>(k, v). (k, if k = name then f v else v)) a"
  proof (cases "map_of a name")
    case None
    then show ?thesis by (simp add: attrib_map_absent)
  next
    case (Some v)
    then show ?thesis using attrib_set_map[OF d Some] by simp
  qed
  have "map (map_attr_subtree name f) cs
        = map (map_values (\<lambda>k v. if k = name then f v else v)) cs"
    using Element.IH kids by (simp add: list_all_iff)
  with a show ?case by simp
qed simp_all

lemma map_attr_descendants_values:
  "well_named r \<Longrightarrow>
   map_attr_descendants name f r = map_values_below (\<lambda>k v. if k = name then f v else v) r"
proof (cases r)
  case (Element t a cs)
  assume "well_named r"
  then have "list_all well_named cs" using Element by simp
  then have "map (map_attr_subtree name f) cs
        = map (map_values (\<lambda>k v. if k = name then f v else v)) cs"
    by (simp add: list_all_iff map_attr_subtree_values)
  then show ?thesis using Element by (simp add: map_attr_descendants_def map_values_below_def)
qed (simp_all add: map_attr_descendants_def map_values_below_def)

lemma map_values_below_comp:
  "map_values_below g (map_values_below h r) = map_values_below (\<lambda>k v. g k (h k v)) r"
  by (cases r) (simp_all add: map_values_below_def map_values_comp comp_def)

lemma map_values_below_id: "map_values_below (\<lambda>k v. v) r = r"
  by (cases r) (simp_all add: map_values_below_def map_values_id map_idI)

lemma foldl_descendants_values:
  "well_named r \<Longrightarrow> distinct ns \<Longrightarrow>
   foldl (\<lambda>r a. map_attr_descendants a f r) r ns
   = map_values_below (\<lambda>k v. if k \<in> set ns then f v else v) r"
proof (induction ns arbitrary: r)
  case Nil
  then show ?case by (simp add: map_values_below_id)
next
  case (Cons n ns)
  let ?r1 = "map_values_below (\<lambda>k v. if k = n then f v else v) r"
  have 1: "map_attr_descendants n f r = ?r1"
    using Cons.prems(1) by (rule map_attr_descendants_values)
  have wn: "well_named ?r1" using Cons.prems(1) by (rule well_named_map_values_below)
  from Cons.prems(2) have d: "distinct ns" "n \<notin> set ns" by simp_all
  have "foldl (\<lambda>r a. map_attr_descendants a f r) ?r1 ns
        = map_values_below (\<lambda>k v. if k \<in> set ns then f v else v) ?r1"
    using Cons.IH[OF wn d(1)] .
  also have "\<dots> = map_values_below
                     (\<lambda>k v. if k \<in> set ns then f (if k = n then f v else v)
                            else (if k = n then f v else v)) r"
    by (rule map_values_below_comp)
  also have "(\<lambda>k v. if k \<in> set ns then f (if k = n then f v else v)
                     else (if k = n then f v else v))
             = (\<lambda>k v. if k \<in> set (n # ns) then f v else v)"
    using d(2) by (auto simp: fun_eq_iff)
  finally show ?case using 1 by simp
qed

lemma update_entities_tree_values:
  assumes "well_named r"
  shows "update_entities_tree m r
         = map_values_below
             (\<lambda>k v. (if k \<in> set quoted_attrs then sub [39] [9764] else id)
                      ((if k \<in> set user_attrs then rename m else id) v)) r"
    and "foldl (update_attributes m) r user_attrs
         = map_values_below (\<lambda>k v. if k \<in> set user_attrs then rename m v else v) r"
proof -
  let ?u = "\<lambda>k v. if k \<in> set user_attrs then rename m v else v"
  show 1: "foldl (update_attributes m) r user_attrs = map_values_below ?u r"
    using foldl_descendants_values[OF assms distinct_user_attrs, of "rename m"]
    by (simp add: user_pass_fold)
  have wn: "well_named (map_values_below ?u r)"
    using assms by (rule well_named_map_values_below)
  have "update_entities_tree m r
        = map_values_below (\<lambda>k v. if k \<in> set quoted_attrs then sub [39] [9764] v else v)
            (map_values_below ?u r)"
    using foldl_descendants_values[OF wn distinct_quoted_attrs, of "sub [39] [9764]"]
    by (simp add: update_entities_tree_def 1)
  also have "\<dots> = map_values_below
                     (\<lambda>k v. if k \<in> set quoted_attrs then sub [39] [9764] (?u k v) else ?u k v) r"
    by (rule map_values_below_comp)
  also have "(\<lambda>k v. if k \<in> set quoted_attrs then sub [39] [9764] (?u k v) else ?u k v)
             = (\<lambda>k v. (if k \<in> set quoted_attrs then sub [39] [9764] else id)
                        ((if k \<in> set user_attrs then rename m else id) v))"
    by (auto simp: fun_eq_iff)
  finally show "update_entities_tree m r
         = map_values_below
             (\<lambda>k v. (if k \<in> set quoted_attrs then sub [39] [9764] else id)
                      ((if k \<in> set user_attrs then rename m else id) v)) r" .
qed

lemma spec_rename_not_matched: "\<not> matched m v \<Longrightarrow> spec_rename m v = v"
  by (rule spec_rename_unmatched) (auto simp: matched_def list_ex_iff)

lemma rewritten_value_spec:
  assumes "plain_names m"
  shows "(if k \<in> set quoted_attrs then sub [39] [9764] else id)
           ((if k \<in> set user_attrs then rename m else id) v)
         = rewritten_value m k v"
  using rename_spec[OF assms, of v] spec_rename_not_matched[of m v]
  by (auto simp: rewritten_value_def sub_quote Let_def)

lemma update_entities_tree_spec:
  assumes "well_named r" and "plain_names m"
  shows "update_entities_tree m r = map_values_below (rewritten_value m) r"
proof -
  have "(\<lambda>k v. (if k \<in> set quoted_attrs then sub [39] [9764] else id)
                 ((if k \<in> set user_attrs then rename m else id) v))
        = rewritten_value m"
    using rewritten_value_spec[OF assms(2)] by (simp add: fun_eq_iff)
  with update_entities_tree_values(1)[OF assms(1), of m] show ?thesis by simp
qed

section \<open>The quote sentinel in the serialised text\<close>

lemma escape_attr_free: "x \<notin> set v \<Longrightarrow> 127 < x \<Longrightarrow> x \<notin> set (escape_attr v)"
  by (induction v) (auto simp: lit_def)

lemma escape_text_free: "x \<notin> set v \<Longrightarrow> 127 < x \<Longrightarrow> x \<notin> set (escape_text v)"
  by (induction v) (auto simp: lit_def)

lemma name_free: "is_name n \<Longrightarrow> 127 < x \<Longrightarrow> x \<notin> set n"
  by (cases n)
     (auto simp: is_name_def is_name_char_def is_name_start_def list_all_iff)

lemma tostring_attrs_free:
  "list_all (\<lambda>(k, v). is_name k) a \<Longrightarrow> x \<notin> set (concat (map snd a)) \<Longrightarrow> 127 < x \<Longrightarrow>
   x \<notin> set (tostring_attrs a)"
  by (induction a) (auto simp: tostring_attrs_def dest: name_free escape_attr_free)

lemma tostring_node_free:
  "well_named n \<Longrightarrow> x \<notin> set (chars n) \<Longrightarrow> 127 < x \<Longrightarrow> x \<notin> set (tostring_node n)"
proof (induction n)
  case (Element t a cs)
  have kids: "x \<notin> set (concat (map tostring_node cs))"
    using Element by (auto simp: list_all_iff)
  have "x \<notin> set (concat (map snd a))" using Element.prems by simp
  then have "x \<notin> set (tostring_attrs a)"
    using Element.prems by (intro tostring_attrs_free) simp_all
  moreover have "x \<notin> set t" using Element.prems by (auto dest: name_free)
  ultimately show ?case using kids Element.prems(3) by auto
next
  case (Text s)
  then show ?case by (simp add: escape_text_free)
next
  case (Comment s)
  then show ?case by (auto simp: lit_def)
qed

lemma escape_quoted_no_quote: "39 \<notin> set (escape_quoted v)"
  by (induction v) (auto simp: escape_quoted_def lit_def)

lemma quoted_value_written:
  fixes H D :: "str \<Rightarrow> str"
  assumes app: "\<And>a b. H (a @ b) = H a @ H b" "\<And>a b. D (a @ b) = D a @ D b"
    and nil: "H [] = []" "D [] = []"
    and free: "\<And>x. 9764 \<notin> set x \<Longrightarrow> H x = D x"
    and quote: "H [9764] = D (lit ''&apos;'')"
  shows "9764 \<notin> set v \<Longrightarrow>
         H (escape_attr (map (\<lambda>c. if c = 39 then 9764 else c) v)) = D (escape_quoted v)"
proof (induction v)
  case Nil
  then show ?case by (simp add: escape_quoted_def nil)
next
  case (Cons c v)
  let ?q = "\<lambda>c::nat. if c = 39 then 9764 else c"
  have ih: "H (escape_attr (map ?q v)) = D (escape_quoted v)" using Cons by simp
  have e: "escape_attr (map ?q (c # v)) = escape_attr [?q c] @ escape_attr (map ?q v)"
    by simp
  have eq: "escape_quoted (c # v)
            = (if c = 39 then lit ''&apos;'' else escape_attr [c]) @ escape_quoted v"
    by (simp add: escape_quoted_def)
  have "H (escape_attr [?q c]) = D (if c = 39 then lit ''&apos;'' else escape_attr [c])"
  proof (cases "c = 39")
    case True
    then show ?thesis using quote by simp
  next
    case False
    have "9764 \<notin> set (escape_attr [c])"
      using Cons.prems by (intro escape_attr_free) simp_all
    then show ?thesis using False free by simp
  qed
  then show ?case unfolding e eq app using ih by simp
qed

lemma quoted_attrs_written:
  fixes H D :: "str \<Rightarrow> str"
  assumes app: "\<And>a b. H (a @ b) = H a @ H b" "\<And>a b. D (a @ b) = D a @ D b"
    and nil: "H [] = []" "D [] = []"
    and free: "\<And>x. 9764 \<notin> set x \<Longrightarrow> H x = D x"
    and quote: "H [9764] = D (lit ''&apos;'')"
  shows "list_all (\<lambda>(k, v). is_name k) a \<Longrightarrow> 9764 \<notin> set (concat (map snd a)) \<Longrightarrow>
         H (tostring_attrs
              (map (\<lambda>(k, v). (k, if k \<in> set quoted_attrs
                                   then map (\<lambda>c. if c = 39 then 9764 else c) v else v)) a))
         = D (tostring_quoted_attrs a)"
proof (induction a)
  case Nil
  then show ?case by (simp add: tostring_attrs_def tostring_quoted_attrs_def nil)
next
  case (Cons e a)
  obtain k v where e: "e = (k, v)" by (cases e)
  let ?q = "\<lambda>c::nat. if c = 39 then 9764 else c"
  let ?Q = "\<lambda>(k, v). (k, if k \<in> set quoted_attrs then map ?q v else v)"
  from Cons.prems e have k: "is_name k" and v: "9764 \<notin> set v" by simp_all
  have ih: "H (tostring_attrs (map ?Q a)) = D (tostring_quoted_attrs a)"
    using Cons by simp
  have head: "H [32] = D [32]" "H k = D k" "H [61, 34] = D [61, 34]"
    using name_free[OF k, of 9764] by (intro free, simp)+
  have tail: "H [34] = D [34]" by (intro free) simp
  have val: "H (escape_attr (if k \<in> set quoted_attrs then map ?q v else v))
             = D (if k \<in> set quoted_attrs then escape_quoted v else escape_attr v)"
  proof (cases "k \<in> set quoted_attrs")
    case True
    then show ?thesis using quoted_value_written[OF app nil free quote v] by simp
  next
    case False
    have "9764 \<notin> set (escape_attr v)" using v by (intro escape_attr_free) simp_all
    then show ?thesis using False free by simp
  qed
  have l: "tostring_attrs (map ?Q (e # a))
           = [32] @ k @ [61, 34]
             @ escape_attr (if k \<in> set quoted_attrs then map ?q v else v) @ [34]
             @ tostring_attrs (map ?Q a)"
    by (simp add: tostring_attrs_def e)
  have r: "tostring_quoted_attrs (e # a)
           = [32] @ k @ [61, 34]
             @ (if k \<in> set quoted_attrs then escape_quoted v else escape_attr v) @ [34]
             @ tostring_quoted_attrs a"
    by (simp add: tostring_quoted_attrs_def e)
  show ?case unfolding l r app by (simp only: head tail val ih)
qed

lemma hom_concat:
  fixes H :: "str \<Rightarrow> str"
  assumes "\<And>a b. H (a @ b) = H a @ H b" and "H [] = []"
  shows "H (concat xs) = concat (map H xs)"
  by (induction xs) (simp_all add: assms)

lemma quoted_node_written:
  fixes H D :: "str \<Rightarrow> str"
  assumes app: "\<And>a b. H (a @ b) = H a @ H b" "\<And>a b. D (a @ b) = D a @ D b"
    and nil: "H [] = []" "D [] = []"
    and free: "\<And>x. 9764 \<notin> set x \<Longrightarrow> H x = D x"
    and quote: "H [9764] = D (lit ''&apos;'')"
  shows "well_named n \<Longrightarrow> 9764 \<notin> set (chars n) \<Longrightarrow>
         H (tostring_node
              (map_values (\<lambda>k v. if k \<in> set quoted_attrs
                                 then map (\<lambda>c. if c = 39 then 9764 else c) v else v) n))
         = D (tostring_quoted_node n)"
proof (induction n)
  case (Element t a cs)
  let ?q = "\<lambda>c::nat. if c = 39 then 9764 else c"
  let ?g = "\<lambda>k v. if k \<in> set quoted_attrs then map ?q v else v"
  let ?a = "map (\<lambda>(k, v). (k, ?g k v)) a"
  from Element.prems have wn: "is_name t" "list_all (\<lambda>(k, v). is_name k) a"
    "list_all well_named cs" and fa: "9764 \<notin> set (concat (map snd a))"
    by simp_all
  have a: "H (tostring_attrs ?a) = D (tostring_quoted_attrs a)"
    using quoted_attrs_written[OF app nil free quote wn(2) fa] .
  have kid: "H (tostring_node (map_values ?g x)) = D (tostring_quoted_node x)"
    if "x \<in> set cs" for x
    using Element.IH[OF that] Element.prems that by (auto simp: list_all_iff)
  have kids: "H (concat (map tostring_node (map (map_values ?g) cs)))
              = D (concat (map tostring_quoted_node cs))"
  proof -
    have "H (concat (map tostring_node (map (map_values ?g) cs)))
          = concat (map H (map tostring_node (map (map_values ?g) cs)))"
      using app(1) nil(1) by (rule hom_concat)
    also have "\<dots> = concat (map D (map tostring_quoted_node cs))"
      using kid by (simp add: comp_def cong: map_cong)
    also have "\<dots> = D (concat (map tostring_quoted_node cs))"
      using hom_concat[OF app(2) nil(2)] by simp
    finally show ?thesis .
  qed
  have t: "9764 \<notin> set t" using name_free[OF wn(1)] by simp
  have p1: "H [60] = D [60]" "H t = D t" using t by (intro free, simp)+
  have p2: "H [47, 62] = D [47, 62]" "H [62] = D [62]" by (intro free, simp)+
  have p3: "H [60, 47] = D [60, 47]" by (intro free) simp
  show ?case
  proof (cases "cs = []")
    case True
    have l: "tostring_node (map_values ?g (Element t a cs))
             = [60] @ t @ tostring_attrs ?a @ [47, 62]"
      using True by simp
    have r: "tostring_quoted_node (Element t a cs) = [60] @ t @ tostring_quoted_attrs a @ [47, 62]"
      using True by simp
    show ?thesis unfolding l r app by (simp only: p1 p2 a)
  next
    case False
    have l: "tostring_node (map_values ?g (Element t a cs))
             = [60] @ t @ tostring_attrs ?a @ [62]
               @ concat (map tostring_node (map (map_values ?g) cs)) @ [60, 47] @ t @ [62]"
      using False by simp
    have r: "tostring_quoted_node (Element t a cs)
             = [60] @ t @ tostring_quoted_attrs a @ [62]
               @ concat (map tostring_quoted_node cs) @ [60, 47] @ t @ [62]"
      using False by simp
    show ?thesis unfolding l r app by (simp only: p1 p2 p3 a kids)
  qed
next
  case (Text s)
  have "9764 \<notin> set (escape_text s)" using Text by (intro escape_text_free) simp_all
  then show ?case using free by simp
next
  case (Comment s)
  have "9764 \<notin> set (lit ''<!--'' @ s @ lit ''-->'')" using Comment by (simp add: lit_def)
  then show ?case using free by simp
qed

lemma quoted_root_written:
  fixes H D :: "str \<Rightarrow> str"
  assumes app: "\<And>a b. H (a @ b) = H a @ H b" "\<And>a b. D (a @ b) = D a @ D b"
    and nil: "H [] = []" "D [] = []"
    and free: "\<And>x. 9764 \<notin> set x \<Longrightarrow> H x = D x"
    and quote: "H [9764] = D (lit ''&apos;'')"
    and wn: "well_named r" and fr: "9764 \<notin> set (chars r)"
  shows "H (tostring_node
              (map_values_below (\<lambda>k v. if k \<in> set quoted_attrs
                                       then map (\<lambda>c. if c = 39 then 9764 else c) v else v) r))
         = D (tostring_quoted_root r)"
proof (cases r)
  case (Element t a cs)
  let ?q = "\<lambda>c::nat. if c = 39 then 9764 else c"
  let ?g = "\<lambda>k v. if k \<in> set quoted_attrs then map ?q v else v"
  from wn Element have w: "is_name t" "list_all (\<lambda>(k, v). is_name k) a"
    "list_all well_named cs" by simp_all
  from fr Element have fa: "9764 \<notin> set (concat (map snd a))" by simp
  have "9764 \<notin> set (tostring_attrs a)" using w(2) fa by (intro tostring_attrs_free) simp_all
  then have a: "H (tostring_attrs a) = D (tostring_attrs a)" by (rule free)
  have kid: "H (tostring_node (map_values ?g x)) = D (tostring_quoted_node x)"
    if "x \<in> set cs" for x
    using quoted_node_written[OF app nil free quote, of x] w(3) fr Element that
    by (auto simp: list_all_iff)
  have kids: "H (concat (map tostring_node (map (map_values ?g) cs)))
              = D (concat (map tostring_quoted_node cs))"
  proof -
    have "H (concat (map tostring_node (map (map_values ?g) cs)))
          = concat (map H (map tostring_node (map (map_values ?g) cs)))"
      using app(1) nil(1) by (rule hom_concat)
    also have "\<dots> = concat (map D (map tostring_quoted_node cs))"
      using kid by (simp add: comp_def cong: map_cong)
    also have "\<dots> = D (concat (map tostring_quoted_node cs))"
      using hom_concat[OF app(2) nil(2)] by simp
    finally show ?thesis .
  qed
  have t: "9764 \<notin> set t" using name_free[OF w(1)] by simp
  have p1: "H [60] = D [60]" "H t = D t" using t by (intro free, simp)+
  have p2: "H [47, 62] = D [47, 62]" "H [62] = D [62]" by (intro free, simp)+
  have p3: "H [60, 47] = D [60, 47]" by (intro free) simp
  show ?thesis
  proof (cases "cs = []")
    case True
    have l: "tostring_node (map_values_below ?g r) = [60] @ t @ tostring_attrs a @ [47, 62]"
      using True Element by (simp add: map_values_below_def)
    have r: "tostring_quoted_root r = [60] @ t @ tostring_attrs a @ [47, 62]"
      using True Element by (simp add: tostring_quoted_root_def)
    show ?thesis unfolding l r app by (simp only: p1 p2 a)
  next
    case False
    have l: "tostring_node (map_values_below ?g r)
             = [60] @ t @ tostring_attrs a @ [62]
               @ concat (map tostring_node (map (map_values ?g) cs)) @ [60, 47] @ t @ [62]"
      using False Element by (simp add: map_values_below_def)
    have r: "tostring_quoted_root r
             = [60] @ t @ tostring_attrs a @ [62]
               @ concat (map tostring_quoted_node cs) @ [60, 47] @ t @ [62]"
      using False Element by (simp add: tostring_quoted_root_def)
    show ?thesis unfolding l r app by (simp only: p1 p2 p3 a kids)
  qed
next
  case (Text s)
  have "9764 \<notin> set (escape_text s)" using fr Text by (intro escape_text_free) simp_all
  then show ?thesis using free Text by (simp add: map_values_below_def tostring_quoted_root_def)
next
  case (Comment s)
  have "9764 \<notin> set (lit ''<!--'' @ s @ lit ''-->'')" using fr Comment by (simp add: lit_def)
  then show ?thesis using free Comment by (simp add: map_values_below_def tostring_quoted_root_def)
qed

lemma quoted_document_written:
  fixes H D :: "str \<Rightarrow> str"
  assumes app: "\<And>a b. H (a @ b) = H a @ H b" "\<And>a b. D (a @ b) = D a @ D b"
    and nil: "H [] = []" "D [] = []"
    and free: "\<And>x. 9764 \<notin> set x \<Longrightarrow> H x = D x"
    and quote: "H [9764] = D (lit ''&apos;'')"
    and wn: "document_named (Document pro r epi)"
    and fr: "9764 \<notin> set (document_chars (Document pro r epi))"
  shows "H (tostring (Document pro
              (map_values_below (\<lambda>k v. if k \<in> set quoted_attrs
                                       then map (\<lambda>c. if c = 39 then 9764 else c) v else v) r)
              epi))
         = D (tostring_quoted (Document pro r epi))"
proof -
  have side: "H (concat (map tostring_node ns)) = D (concat (map tostring_node ns))"
    if "list_all well_named ns" "9764 \<notin> set (concat (map chars ns))" for ns
  proof (rule free)
    show "9764 \<notin> set (concat (map tostring_node ns))"
      using that by (induction ns) (auto dest: tostring_node_free)
  qed
  from wn have w: "list_all well_named pro" "well_named r" "list_all well_named epi"
    by (simp_all add: document_named_def)
  from fr have f: "9764 \<notin> set (concat (map chars pro))" "9764 \<notin> set (chars r)"
    "9764 \<notin> set (concat (map chars epi))"
    by (simp_all add: document_chars_def)
  have root: "H (tostring_node
              (map_values_below (\<lambda>k v. if k \<in> set quoted_attrs
                                       then map (\<lambda>c. if c = 39 then 9764 else c) v else v) r))
         = D (tostring_quoted_root r)"
    using app nil free quote w(2) f(2) by (rule quoted_root_written)
  show ?thesis
    unfolding tostring_def tostring_quoted_def document.sel app
    by (simp only: side[OF w(1) f(1)] side[OF w(3) f(3)] root)
qed

lemma sub_char_append:
  "a \<noteq> 46 \<Longrightarrow> a \<notin> set re_special \<Longrightarrow> sub [a] r (x @ y) = sub [a] r x @ sub [a] r y"
  by (simp add: sub_char)

lemma sub_char_free:
  "a \<noteq> 46 \<Longrightarrow> a \<notin> set re_special \<Longrightarrow> a \<notin> set x \<Longrightarrow> sub [a] r x = x"
  by (induction x) (simp_all add: sub_char)

lemma decode_free:
  "9764 \<notin> set x \<Longrightarrow> 9764 \<notin> set (sub [9763] [13] (sub [9762] [12] x))"
  by (auto simp: decode_map)

lemma quoted_output:
  assumes "document_named (Document pro r epi)"
    and "9764 \<notin> set (document_chars (Document pro r epi))"
  shows "sub [9764] (lit ''&apos;'')
           (sub [9763] [13]
              (sub [9762] [12]
                 (tostring (Document pro
                    (map_values_below (\<lambda>k v. if k \<in> set quoted_attrs
                                             then sub [39] [9764] v else v) r)
                    epi))))
         = sub [9763] [13] (sub [9762] [12] (tostring_quoted (Document pro r epi)))"
proof -
  let ?H = "\<lambda>x. sub [9764] (lit ''&apos;'') (sub [9763] [13] (sub [9762] [12] x))"
  let ?D = "\<lambda>x. sub [9763] [13] (sub [9762] [12] x)"
  have q: "(\<lambda>k v. if k \<in> set quoted_attrs then sub [39] [9764] v else v)
           = (\<lambda>k v. if k \<in> set quoted_attrs then map (\<lambda>c. if c = 39 then 9764 else c) v else v)"
    by (intro ext) (simp add: sub_quote)
  have 1: "?H (a @ b) = ?H a @ ?H b" for a b
    using quote_sentinel_plain by (simp add: decode_map sub_char)
  have 2: "?D (a @ b) = ?D a @ ?D b" for a b by (simp add: decode_map)
  have 3: "?H [] = []" using quote_sentinel_plain by (simp add: decode_map sub_char)
  have 4: "?D [] = []" by (simp add: decode_map)
  have 5: "?H x = ?D x" if "9764 \<notin> set x" for x
    using quote_sentinel_plain decode_free[OF that] by (simp add: sub_char_free)
  have 6: "?H [9764] = ?D (lit ''&apos;'')"
    using quote_sentinel_plain by (simp add: decode_map sub_char lit_def)
  show ?thesis
    unfolding q using quoted_document_written[of ?H ?D, OF 1 2 3 4 5 6 assms] .
qed

section \<open>The claims\<close>




text \<open>
  C2, as amended. When \<open>update_config\<close> returns, the file it writes is the XML
  declaration and the serialisation of the rewritten tree, and in that tree every
  element of the parsed input stands at its place with its tag and its attributes. An
  element below the root with one of the six tags whose text equals a key of the map
  has the mapped value as its text; every other element, the root among them, has the
  text it had. Apart from the leading text of the elements below the root with one of
  the six tags, the tree is the parsed input.
\<close>

theorem update_config_renames_below_root:
  assumes "update_config self in_path out_path fs = (None, fs')"
  shows "\<exists>content d.
           fs_lookup fs in_path = Some (Plain content) \<and> parse content = Inr d
         \<and> fs' = fs_write fs out_path
                   (Plain (xml_declaration @ [10]
                           @ tostring (Document (prolog d)
                                         (update_config_tree (user_name_map self) (getroot d))
                                         (epilog d))))
         \<and> (\<forall>p t a cs. elem_at (getroot d) p = Some (Element t a cs) \<longrightarrow>
               (\<exists>cs'. elem_at (update_config_tree (user_name_map self) (getroot d)) p
                         = Some (Element t a cs')
                     \<and> get_text cs'
                       = (if p \<noteq> [] \<and> t \<in> set config_tags
                          then map_option (\<lambda>s. case map_of (user_name_map self) s of
                                                  None \<Rightarrow> s | Some v \<Rightarrow> v) (get_text cs)
                          else get_text cs)))
         \<and> drop_user_text_below (update_config_tree (user_name_map self) (getroot d))
           = drop_user_text_below (getroot d)"
proof -
  let ?m = "user_name_map self"
  from update_config_success[OF assms] obtain content d where
    c: "fs_lookup fs in_path = Some (Plain content)" "parse content = Inr d"
    and w: "fs' = fs_write fs out_path
                   (Plain (xml_declaration @ [10]
                           @ tostring (Document (prolog d) (update_config_tree ?m (getroot d))
                                         (epilog d))))"
    by blast
  have pos: "\<exists>cs'. elem_at (update_config_tree ?m (getroot d)) p = Some (Element t a cs')
                \<and> get_text cs'
                  = (if p \<noteq> [] \<and> t \<in> set config_tags
                     then map_option (\<lambda>s. case map_of ?m s of None \<Rightarrow> s | Some v \<Rightarrow> v)
                            (get_text cs)
                     else get_text cs)"
    if e: "elem_at (getroot d) p = Some (Element t a cs)" for p t a cs
  proof (cases "p = []")
    case True
    with e have "getroot d = Element t a cs" by simp
    then show ?thesis
      using update_children_root[of ?m t a cs config_tags] True
      by (auto simp: update_config_tree_def)
  next
    case False
    obtain cs' where
      "foldl (\<lambda>n name. update_subtree ?m name n) (Element t a cs) config_tags = Element t a cs'"
      "get_text cs' = (if t \<in> set config_tags then renamed_text ?m (get_text cs) else get_text cs)"
      using foldl_update_subtree_top[OF distinct_config_tags] by blast
    then show ?thesis
      using False e
      by (simp add: update_config_tree_def elem_at_foldl_update_children renamed_text_def)
  qed
  have "drop_user_text_below (update_config_tree ?m (getroot d)) = drop_user_text_below (getroot d)"
    by (simp add: update_config_tree_def drop_user_text_foldl)
  with c w pos show ?thesis by blast
qed

theorem update_config_renames_below_root_witness:
  "update_config ex_self (lit ''c.xml'') (lit ''c.xml'')
     [([lit ''c.xml''], Plain (lit ''<username>alice<lead>alice</lead><lead>carol</lead></username>''))]
   = (None, [([lit ''c.xml''],
              Plain (xml_declaration @ [10]
                     @ lit ''<username>alice<lead>bob</lead><lead>carol</lead></username>''))])
   \<and> parse (lit ''<username>alice<lead>alice</lead><lead>carol</lead></username>'')
     = Inr (Document []
             (Element (lit ''username'') []
                [Text (lit ''alice''), Element (lit ''lead'') [] [Text (lit ''alice'')],
                 Element (lit ''lead'') [] [Text (lit ''carol'')]]) [])
   \<and> (\<exists>cs'. elem_at (update_config_tree ex_map
                       (Element (lit ''username'') []
                          [Text (lit ''alice''), Element (lit ''lead'') [] [Text (lit ''alice'')],
                           Element (lit ''lead'') [] [Text (lit ''carol'')]])) [0]
               = Some (Element (lit ''lead'') [] cs')
            \<and> get_text cs' = Some (lit ''bob''))
   \<and> (\<exists>cs'. elem_at (update_config_tree ex_map
                       (Element (lit ''username'') []
                          [Text (lit ''alice''), Element (lit ''lead'') [] [Text (lit ''alice'')],
                           Element (lit ''lead'') [] [Text (lit ''carol'')]])) []
               = Some (Element (lit ''username'') [] cs')
            \<and> get_text cs' = Some (lit ''alice''))"
proof -
  let ?r = "Element (lit ''username'') []
                [Text (lit ''alice''), Element (lit ''lead'') [] [Text (lit ''alice'')],
                 Element (lit ''lead'') [] [Text (lit ''carol'')]]"
  let ?fs = "[([lit ''c.xml''],
               Plain (lit ''<username>alice<lead>alice</lead><lead>carol</lead></username>''))]"
  have h: "update_config ex_self (lit ''c.xml'') (lit ''c.xml'') ?fs
     = (None, [([lit ''c.xml''],
              Plain (xml_declaration @ [10]
                     @ lit ''<username>alice<lead>bob</lead><lead>carol</lead></username>''))])"
    by code_simp
  have l: "fs_lookup ?fs (lit ''c.xml'')
           = Some (Plain (lit ''<username>alice<lead>alice</lead><lead>carol</lead></username>''))"
    by code_simp
  have p: "parse (lit ''<username>alice<lead>alice</lead><lead>carol</lead></username>'')
           = Inr (Document [] ?r [])"
    by code_simp
  have m: "user_name_map ex_self = ex_map" by code_simp
  have e: "elem_at ?r [0] = Some (Element (lit ''lead'') [] [Text (lit ''alice'')])"
    "elem_at ?r [] = Some (Element (lit ''username'') []
                [Text (lit ''alice''), Element (lit ''lead'') [] [Text (lit ''alice'')],
                 Element (lit ''lead'') [] [Text (lit ''carol'')]])"
    by code_simp+
  have v: "(if [0::nat] \<noteq> [] \<and> lit ''lead'' \<in> set config_tags
            then map_option (\<lambda>s. case map_of ex_map s of None \<Rightarrow> s | Some v \<Rightarrow> v)
                   (get_text [Text (lit ''alice'')])
            else get_text [Text (lit ''alice'')]) = Some (lit ''bob'')"
    "get_text [Text (lit ''alice''), Element (lit ''lead'') [] [Text (lit ''alice'')],
                 Element (lit ''lead'') [] [Text (lit ''carol'')]] = Some (lit ''alice'')"
    by code_simp+
  from update_config_renames_below_root[OF h] obtain content d where
    c: "fs_lookup ?fs (lit ''c.xml'') = Some (Plain content)" "parse content = Inr d"
    and r: "\<And>p t a cs. elem_at (getroot d) p = Some (Element t a cs) \<Longrightarrow>
               (\<exists>cs'. elem_at (update_config_tree (user_name_map ex_self) (getroot d)) p
                         = Some (Element t a cs')
                     \<and> get_text cs'
                       = (if p \<noteq> [] \<and> t \<in> set config_tags
                          then map_option (\<lambda>s. case map_of (user_name_map ex_self) s of
                                                  None \<Rightarrow> s | Some v \<Rightarrow> v) (get_text cs)
                          else get_text cs))"
    by blast
  from c l p have "d = Document [] ?r []" by simp
  then have g: "getroot d = ?r" by simp
  from r[of "[0]", unfolded g m, OF e(1)] r[of "[]", unfolded g m, OF e(2)] v h p
  show ?thesis by simp
qed

text \<open>
  The claim as stated covers every element. \<open>findall('.//username')\<close> yields the
  elements below the root only: a root with the tag \<open>username\<close> keeps its text, while an
  element below it is rewritten.
\<close>

theorem root_text_not_renamed:
  "update_config ex_self (lit ''c.xml'') (lit ''c.xml'')
     [([lit ''c.xml''], Plain (lit ''<username>alice<lead>alice</lead></username>''))]
   = (None, [([lit ''c.xml''],
              Plain (xml_declaration @ [10]
                     @ lit ''<username>alice<lead>bob</lead></username>''))])"
  by code_simp




text \<open>
  C4, as amended. Let \<open>update_entities\<close> return on a document in which, after the
  user-name loop, the sentinel U+2624 does not occur. Then the output is the XML
  declaration and the document as it stands after the user-name loop, written as
  \<open>tostring\<close> writes it but with every single quote in a protected attribute of an
  element below the root written \<open>&apos;\<close> (and then the decoding of the two other
  sentinels and the line break after a comment, as in the code). So such a quote is
  never written raw, \<open>escape_quoted\<close> writing none; the protected attributes of the root
  element are written as \<open>tostring\<close> writes them, with their quotes.
\<close>

theorem quotes_written_as_entities:
  assumes "update_entities_content m content = Inr out"
  shows "\<exists>d. parse (sub [13] [9763] (sub [12] [9762] content)) = Inr d
           \<and> (9764 \<notin> set (document_chars
                             (Document (prolog d)
                                (foldl (update_attributes m) (getroot d) user_attrs)
                                (epilog d)))
              \<longrightarrow> out = xml_declaration @ [10]
                        @ sub (lit ''--><'') (lit ''-->'' @ [10, 60])
                            (sub [9763] [13]
                               (sub [9762] [12]
                                  (tostring_quoted
                                     (Document (prolog d)
                                        (foldl (update_attributes m) (getroot d) user_attrs)
                                        (epilog d))))))"
proof -
  from update_entities_content_success[OF assms(1)] obtain d where
    d: "parse (sub [13] [9763] (sub [12] [9762] content)) = Inr d"
    and out: "out = xml_declaration @ [10]
                   @ sub (lit ''--><'') (lit ''-->'' @ [10, 60])
                       (sub [9764] (lit ''&apos;'')
                          (sub [9763] [13]
                             (sub [9762] [12]
                                (tostring (Document (prolog d)
                                             (update_entities_tree m (getroot d))
                                             (epilog d))))))"
    by blast
  let ?T = "foldl (update_attributes m) (getroot d) user_attrs"
  have dn: "document_named d" using d by (rule parse_named)
  then have wn: "well_named (getroot d)" by (simp add: document_named_def)
  have wT: "well_named ?T"
    unfolding update_entities_tree_values(2)[OF wn]
    using wn by (rule well_named_map_values_below)
  have dT: "document_named (Document (prolog d) ?T (epilog d))"
    using dn wT by (simp add: document_named_def)
  have t: "update_entities_tree m (getroot d)
           = map_values_below (\<lambda>k v. if k \<in> set quoted_attrs then sub [39] [9764] v else v) ?T"
    unfolding update_entities_tree_def
    using wT distinct_quoted_attrs by (rule foldl_descendants_values)
  have "out = xml_declaration @ [10]
              @ sub (lit ''--><'') (lit ''-->'' @ [10, 60])
                  (sub [9763] [13]
                     (sub [9762] [12] (tostring_quoted (Document (prolog d) ?T (epilog d)))))"
    if "9764 \<notin> set (document_chars (Document (prolog d) ?T (epilog d)))"
    unfolding out t quoted_output[OF dT that] by (rule refl)
  with d show ?thesis by blast
qed

theorem quotes_written_as_entities_witness:
  "update_entities_content ex_map ex_users = Inr ex_users_out
   \<and> parse (sub [13] [9763] (sub [12] [9762] ex_users)) = Inr (Document [] ex_users_tree [])
   \<and> 9764 \<notin> set (document_chars
                    (Document [] (foldl (update_attributes ex_map) ex_users_tree user_attrs) []))
   \<and> tostring_quoted (Document [] (foldl (update_attributes ex_map) ex_users_tree user_attrs) [])
     = lit ''<e user=\"alice\" summary=\"it's\"><x user=\"bob\" author=\"o&apos;br bob \" owner=\"malice alice\" summary=\"it&apos;s\" note=\" alice \"/></e>''
   \<and> ex_users_out
     = xml_declaration @ [10]
       @ sub (lit ''--><'') (lit ''-->'' @ [10, 60])
           (sub [9763] [13]
              (sub [9762] [12]
                 (tostring_quoted
                    (Document [] (foldl (update_attributes ex_map) ex_users_tree user_attrs) []))))"
proof -
  have h1: "update_entities_content ex_map ex_users = Inr ex_users_out" by code_simp
  have p: "parse (sub [13] [9763] (sub [12] [9762] ex_users)) = Inr (Document [] ex_users_tree [])"
    by code_simp
  have f: "9764 \<notin> set (document_chars
                    (Document [] (foldl (update_attributes ex_map) ex_users_tree user_attrs) []))"
    by code_simp
  have q: "tostring_quoted (Document [] (foldl (update_attributes ex_map) ex_users_tree user_attrs) [])
     = lit ''<e user=\"alice\" summary=\"it's\"><x user=\"bob\" author=\"o&apos;br bob \" owner=\"malice alice\" summary=\"it&apos;s\" note=\" alice \"/></e>''"
    by code_simp
  from quotes_written_as_entities[OF h1] obtain d where
    d: "parse (sub [13] [9763] (sub [12] [9762] ex_users)) = Inr d"
    and o: "9764 \<notin> set (document_chars
                             (Document (prolog d)
                                (foldl (update_attributes ex_map) (getroot d) user_attrs)
                                (epilog d)))
              \<longrightarrow> ex_users_out = xml_declaration @ [10]
                        @ sub (lit ''--><'') (lit ''-->'' @ [10, 60])
                            (sub [9763] [13]
                               (sub [9762] [12]
                                  (tostring_quoted
                                     (Document (prolog d)
                                        (foldl (update_attributes ex_map) (getroot d) user_attrs)
                                        (epilog d)))))"
    by blast
  from d p have d1: "d = Document [] ex_users_tree []" by simp
  from o f have "ex_users_out
     = xml_declaration @ [10]
       @ sub (lit ''--><'') (lit ''-->'' @ [10, 60])
           (sub [9763] [13]
              (sub [9762] [12]
                 (tostring_quoted
                    (Document [] (foldl (update_attributes ex_map) ex_users_tree user_attrs) []))))"
    unfolding d1 by simp
  with h1 p f q show ?thesis by simp
qed

text \<open>
  The claim as stated covers every element. A listed attribute on the root element is
  not visited by \<open>findall('.//*[@summary]')\<close> and keeps its raw quote.
\<close>

theorem root_quote_not_escaped:
  "update_entities_content [] (lit ''<e summary=\"it's\"><x summary=\"it's\"/></e>'')
   = Inr (xml_declaration @ [10] @ lit ''<e summary=\"it's\"><x summary=\"it&apos;s\"/></e>'')"
  by code_simp

text \<open>
  C5 fails on the code. The user name is put into the pattern of \<open>re.sub\<close> as it is, so
  in the key \<open>a.c\<close> the dot matches any character: with the map \<open>{a.c: abc}\<close> the value
  \<open>" abc "\<close> is rewritten to itself, and the identity map \<open>{a.c: a.c}\<close> then turns it into
  \<open>" a.c "\<close>.
\<close>

theorem identity_pass_changes_result:
  "update_entities_content [(lit ''a.c'', lit ''abc'')] (lit ''<e><x user=\" abc \"/></e>'')
     = Inr (xml_declaration @ [10] @ lit ''<e><x user=\" abc \"/></e>'')
   \<and> update_entities_content [(lit ''a.c'', lit ''a.c'')]
        (xml_declaration @ [10] @ lit ''<e><x user=\" abc \"/></e>'')
     = Inr (xml_declaration @ [10] @ lit ''<e><x user=\" a.c \"/></e>'')"
  by code_simp

text \<open>
  C6, as amended. Let \<open>update_entities\<close> return on a document, with a map whose old names
  contain no special character of the pattern language and whose new names contain no
  backslash and only characters XML allows. The output is the serialisation of the
  parsed input in which nothing but attribute values of elements below the root is
  changed: a value changes only if it belongs to one of the nineteen listed attributes
  and equals an old name or holds one between two spaces, or if it belongs to one of
  the twelve protected attributes and holds a single quote. Tags, attribute names and
  their order, text, comments, nesting and the attributes of the root element are
  those of the parsed input. And when no listed attribute below the root equals an old
  name or holds one between two spaces, the output is the output for the empty map.
\<close>

theorem only_matched_values_rewritten:
  assumes "update_entities_content m content = Inr out" and "plain_names m"
  shows "\<exists>d. parse (sub [13] [9763] (sub [12] [9762] content)) = Inr d
           \<and> out = xml_declaration @ [10]
                   @ sub (lit ''--><'') (lit ''-->'' @ [10, 60])
                       (sub [9764] (lit ''&apos;'')
                          (sub [9763] [13]
                             (sub [9762] [12]
                                (tostring (Document (prolog d)
                                             (map_values_below (rewritten_value m) (getroot d))
                                             (epilog d))))))
           \<and> (list_all (\<lambda>(k, v). k \<in> set user_attrs \<longrightarrow> \<not> matched m v)
                 (attributes_below (getroot d))
               \<longrightarrow> update_entities_content [] content = Inr out)"
proof -
  from update_entities_content_success[OF assms(1)] obtain d where
    d: "parse (sub [13] [9763] (sub [12] [9762] content)) = Inr d"
    and out: "out = xml_declaration @ [10]
                   @ sub (lit ''--><'') (lit ''-->'' @ [10, 60])
                       (sub [9764] (lit ''&apos;'')
                          (sub [9763] [13]
                             (sub [9762] [12]
                                (tostring (Document (prolog d)
                                             (update_entities_tree m (getroot d))
                                             (epilog d))))))"
    by blast
  have wn: "well_named (getroot d)" using parse_named[OF d] by (simp add: document_named_def)
  have t: "update_entities_tree m (getroot d) = map_values_below (rewritten_value m) (getroot d)"
    using wn assms(2) by (rule update_entities_tree_spec)
  have e: "plain_names []" "names_supported []"
    by (simp_all add: plain_names_def names_supported_def values_supported_def)
  have t0: "update_entities_tree [] (getroot d)
            = map_values_below (rewritten_value []) (getroot d)"
    using wn e(1) by (rule update_entities_tree_spec)
  have "update_entities_content [] content = Inr out"
    if u: "list_all (\<lambda>(k, v). k \<in> set user_attrs \<longrightarrow> \<not> matched m v)
             (attributes_below (getroot d))"
  proof -
    have "map_values_below (rewritten_value m) (getroot d)
          = map_values_below (rewritten_value []) (getroot d)"
    proof (rule map_values_below_cong)
      fix k v assume "(k, v) \<in> set (attributes_below (getroot d))"
      with u have "k \<in> set user_attrs \<longrightarrow> \<not> matched m v" by (auto simp: list_all_iff)
      then show "rewritten_value m k v = rewritten_value [] k v"
        by (auto simp: rewritten_value_def matched_def)
    qed
    then have "update_entities_tree [] (getroot d) = update_entities_tree m (getroot d)"
      using t t0 by simp
    with update_entities_content_result[OF d e(2)] out show ?thesis by simp
  qed
  with d out t show ?thesis by auto
qed

theorem only_matched_values_rewritten_witness:
  "update_entities_content ex_map ex_users = Inr ex_users_out \<and> plain_names ex_map
   \<and> parse (sub [13] [9763] (sub [12] [9762] ex_users)) = Inr (Document [] ex_users_tree [])
   \<and> map_values_below (rewritten_value ex_map) ex_users_tree
     = Element (lit ''e'') [(lit ''user'', lit ''alice''), (lit ''summary'', lit ''it's'')]
         [Element (lit ''x'')
            [(lit ''user'', lit ''bob''), (lit ''author'', lit ''o'' @ [9764] @ lit ''br bob ''),
             (lit ''owner'', lit ''malice alice''), (lit ''summary'', lit ''it'' @ [9764] @ lit ''s''),
             (lit ''note'', lit '' alice '')] []]
   \<and> ex_users_out
     = xml_declaration @ [10]
       @ sub (lit ''--><'') (lit ''-->'' @ [10, 60])
           (sub [9764] (lit ''&apos;'')
              (sub [9763] [13]
                 (sub [9762] [12]
                    (tostring (Document []
                                 (map_values_below (rewritten_value ex_map) ex_users_tree) [])))))
   \<and> update_entities_content ex_map ex_unmatched
       = Inr (xml_declaration @ [10] @ ex_unmatched)
   \<and> parse (sub [13] [9763] (sub [12] [9762] ex_unmatched))
       = Inr (Document [] ex_unmatched_tree [])
   \<and> attributes_below ex_unmatched_tree
       = [(lit ''user'', lit ''carol''), (lit ''owner'', lit ''malice alice''),
          (lit ''note'', lit '' alice '')]
   \<and> \<not> matched ex_map (lit ''carol'') \<and> \<not> matched ex_map (lit ''malice alice'')
   \<and> lit ''note'' \<notin> set user_attrs
   \<and> update_entities_content [] ex_unmatched = Inr (xml_declaration @ [10] @ ex_unmatched)"
proof -
  have h1: "update_entities_content ex_map ex_users = Inr ex_users_out" by code_simp
  have h2: "plain_names ex_map" by code_simp
  have p1: "parse (sub [13] [9763] (sub [12] [9762] ex_users)) = Inr (Document [] ex_users_tree [])"
    by code_simp
  have v1: "map_values_below (rewritten_value ex_map) ex_users_tree
     = Element (lit ''e'') [(lit ''user'', lit ''alice''), (lit ''summary'', lit ''it's'')]
         [Element (lit ''x'')
            [(lit ''user'', lit ''bob''), (lit ''author'', lit ''o'' @ [9764] @ lit ''br bob ''),
             (lit ''owner'', lit ''malice alice''), (lit ''summary'', lit ''it'' @ [9764] @ lit ''s''),
             (lit ''note'', lit '' alice '')] []]"
    by code_simp
  have h3: "update_entities_content ex_map ex_unmatched = Inr (xml_declaration @ [10] @ ex_unmatched)"
    by code_simp
  have p2: "parse (sub [13] [9763] (sub [12] [9762] ex_unmatched))
            = Inr (Document [] ex_unmatched_tree [])"
    by code_simp
  have a: "attributes_below ex_unmatched_tree
       = [(lit ''user'', lit ''carol''), (lit ''owner'', lit ''malice alice''),
          (lit ''note'', lit '' alice '')]"
    by code_simp
  have m: "\<not> matched ex_map (lit ''carol'')" "\<not> matched ex_map (lit ''malice alice'')"
    "lit ''note'' \<notin> set user_attrs"
    by code_simp+
  from only_matched_values_rewritten[OF h1 h2] obtain d where
    d: "parse (sub [13] [9763] (sub [12] [9762] ex_users)) = Inr d"
    and o: "ex_users_out = xml_declaration @ [10]
                   @ sub (lit ''--><'') (lit ''-->'' @ [10, 60])
                       (sub [9764] (lit ''&apos;'')
                          (sub [9763] [13]
                             (sub [9762] [12]
                                (tostring (Document (prolog d)
                                             (map_values_below (rewritten_value ex_map) (getroot d))
                                             (epilog d))))))"
    by blast
  from d p1 have d1: "d = Document [] ex_users_tree []" by simp
  from only_matched_values_rewritten[OF h3 h2] obtain d' where
    d': "parse (sub [13] [9763] (sub [12] [9762] ex_unmatched)) = Inr d'"
    and f: "list_all (\<lambda>(k, v). k \<in> set user_attrs \<longrightarrow> \<not> matched ex_map v)
              (attributes_below (getroot d'))
            \<longrightarrow> update_entities_content [] ex_unmatched = Inr (xml_declaration @ [10] @ ex_unmatched)"
    by blast
  from d' p2 have d2: "d' = Document [] ex_unmatched_tree []" by simp
  have "update_entities_content [] ex_unmatched = Inr (xml_declaration @ [10] @ ex_unmatched)"
    using f unfolding d2 by (simp add: a m)
  with o h1 h2 p1 v1 h3 p2 a m show ?thesis unfolding d1 by simp
qed

text \<open>
  The claim as stated promises the bytes of the input. With an empty map the output
  still differs from the input: an XML declaration is written first and a quote in one
  of the twelve attributes comes out as \<open>&apos;\<close>.
\<close>

theorem quoted_value_not_reproduced:
  "update_entities_content [] (lit ''<e><x summary=\"it's\"/></e>'')
   = Inr (xml_declaration @ [10] @ lit ''<e><x summary=\"it&apos;s\"/></e>'')
   \<and> \<not> occurs (lit ''it's'') (xml_declaration @ [10] @ lit ''<e><x summary=\"it&apos;s\"/></e>'')"
  by code_simp

text \<open>
  C7 fails on the code. \<open>sub(r'\.zip', r'.fixed_users', export_zip_path)\<close> replaces every
  \<open>.zip\<close> of the path, not the extension: for \<open>exports.zip.d/in.zip\<close> the archive is
  written to \<open>exports.fixed_users.d/in.fixed_users.zip\<close>, and nothing to
  \<open>exports.zip.d/in.fixed_users.zip\<close>.
\<close>

theorem archive_name_replaces_every_zip:
  "fst (main ex_map False (lit ''/tmp/tmpk3x'') (lit ''exports.zip.d/in.zip'') ex_fs_nested_name)
     = None
   \<and> fs_lookup (snd (main ex_map False (lit ''/tmp/tmpk3x'') (lit ''exports.zip.d/in.zip'')
                       ex_fs_nested_name))
       (lit ''exports.zip.d/in.fixed_users.zip'') = None
   \<and> fs_lookup (snd (main ex_map False (lit ''/tmp/tmpk3x'') (lit ''exports.zip.d/in.zip'')
                       ex_fs_nested_name))
       (lit ''exports.fixed_users.d/in.fixed_users.zip'')
     = Some (Zip [([lit ''config.xml''],
                   Plain (xml_declaration @ [10]
                          @ lit ''<c><username>bob</username><lead>carol</lead></c>'')),
                  ([lit ''data'', lit ''data.zip''],
                   Zip [([lit ''activeobjects.xml''], Plain (lit ''<o/>'')),
                        ([lit ''entities.xml''],
                         Plain (xml_declaration @ [10]
                                @ lit ''<e><x user=\"bob\" summary=\"it&apos;s\"/></e>''))])])"
  by code_simp



text \<open>
  C9, as amended. When the nested data archive is missing after the outer extraction
  (or is not a zip archive), \<open>unpack\<close> raises \<open>FileNotFoundError\<close> (or \<open>BadZipFile\<close>) and
  \<open>massage\<close> stops there: the file system is as the outer extraction left it, so no
  rewritten file has been written.
\<close>

theorem massage_aborts_without_data_zip:
  assumes "open_zip fs export_zip_path = Inr outer"
    and "open_zip (extractall outer (workspace_path (workspace self) None) fs) (data_zip_path self)
         = Inl e"
  shows "unpack self export_zip_path fs
           = (Some e, extractall outer (workspace_path (workspace self) None) fs)
       \<and> massage self export_zip_path fs
           = (Some e, extractall outer (workspace_path (workspace self) None) fs)
       \<and> (e = FileNotFoundError \<or> e = BadZipFile)"
proof -
  have u: "unpack self export_zip_path fs
           = (Some e, extractall outer (workspace_path (workspace self) None) fs)"
    using assms by (simp add: unpack_def)
  have "e = FileNotFoundError \<or> e = BadZipFile"
    using assms(2) by (auto simp: open_zip_def split: option.splits file_content.splits)
  with u show ?thesis by (simp add: massage_def and_then_def)
qed

theorem massage_aborts_without_data_zip_witness:
  "open_zip ex_fs_flat (lit ''in.zip'') = Inr ex_flat
   \<and> open_zip (extractall ex_flat (workspace_path (workspace ex_self) None) ex_fs_flat)
        (data_zip_path ex_self) = Inl FileNotFoundError
   \<and> massage ex_self (lit ''in.zip'') ex_fs_flat
        = (Some FileNotFoundError,
           extractall ex_flat (workspace_path (workspace ex_self) None) ex_fs_flat)"
proof -
  have h1: "open_zip ex_fs_flat (lit ''in.zip'') = Inr ex_flat" by code_simp
  have h2: "open_zip (extractall ex_flat (workspace_path (workspace ex_self) None) ex_fs_flat)
        (data_zip_path ex_self) = Inl FileNotFoundError" by code_simp
  from massage_aborts_without_data_zip[OF h1 h2] h1 h2 show ?thesis by blast
qed

text \<open>
  The claim as stated covers every absent layout. A nested archive without
  \<open>entities.xml\<close> passes \<open>unpack\<close>; \<open>massage\<close> then rewrites \<open>config.xml\<close> in the workspace
  and fails only when \<open>update_entities\<close> opens the missing file.
\<close>

theorem unpack_accepts_missing_entities:
  "unpack ex_self (lit ''in.zip'') ex_fs_no_entities
     = (None, [([lit ''in.zip''], Zip ex_no_entities),
               ([lit ''tmp'', lit ''tmpk3x'', lit ''config.xml''], Plain ex_config),
               ([lit ''tmp'', lit ''tmpk3x'', lit ''data'', lit ''data.zip''],
                Zip [([lit ''activeobjects.xml''], Plain (lit ''<o/>''))]),
               ([lit ''tmp'', lit ''tmpk3x'', lit ''data'', lit ''activeobjects.xml''],
                Plain (lit ''<o/>''))])
   \<and> fst (massage ex_self (lit ''in.zip'') ex_fs_no_entities) = Some FileNotFoundError
   \<and> fs_lookup (snd (massage ex_self (lit ''in.zip'') ex_fs_no_entities)) (config_xml_path ex_self)
       = Some (Plain (xml_declaration @ [10]
                      @ lit ''<c><username>bob</username><lead>carol</lead></c>''))"
  by code_simp

text \<open>
  C10. With diagnostic mode off, \<open>_prepare_output_path\<close> returns its argument. So when
  \<open>massage\<close> returns, it has unpacked the archive, read \<open>config.xml\<close> and written the
  rewritten text to the path it read, then read \<open>entities.xml\<close> and written the
  rewritten text to the path it read, and packed the result: after each rewrite the
  path holds the rewritten text in place of the original, and every other file is as
  \<open>unpack\<close> left it until \<open>pack\<close> runs.
\<close>

theorem massage_rewrites_in_place:
  assumes "\<not> debug self" and "massage self export_zip_path fs = (None, fs')"
  shows "prepare_output_path self p = p
    \<and> (\<exists>fsu content config fs1 entities out fs2.
          unpack self export_zip_path fs = (None, fsu)
        \<and> fs_lookup fsu (config_xml_path self) = Some (Plain content)
        \<and> parse content = Inr config
        \<and> fs1 = fs_write fsu (config_xml_path self)
                  (Plain (xml_declaration @ [10]
                          @ tostring (Document (prolog config)
                                        (update_config_tree (user_name_map self) (getroot config))
                                        (epilog config))))
        \<and> fs_lookup fs1 (config_xml_path self)
            = Some (Plain (xml_declaration @ [10]
                           @ tostring (Document (prolog config)
                                         (update_config_tree (user_name_map self) (getroot config))
                                         (epilog config))))
        \<and> fs_lookup fs1 (entities_xml_path self) = Some (Plain entities)
        \<and> update_entities_content (user_name_map self) entities = Inr out
        \<and> fs2 = fs_write fs1 (entities_xml_path self) (Plain out)
        \<and> fs_lookup fs2 (entities_xml_path self) = Some (Plain out)
        \<and> (\<forall>q. components q \<noteq> components (config_xml_path self)
                \<and> components q \<noteq> components (entities_xml_path self)
                \<longrightarrow> fs_lookup fs2 q = fs_lookup fsu q)
        \<and> pack self export_zip_path fs2 = (None, fs'))"
proof -
  let ?cfg = "config_xml_path self"
  let ?ent = "entities_xml_path self"
  have same: "prepare_output_path self q = q" for q
    using assms(1) by (simp add: prepare_output_path_def)
  obtain ru fsu where u: "unpack self export_zip_path fs = (ru, fsu)"
    by (cases "unpack self export_zip_path fs")
  have ru: "ru = None"
    using assms(2) u by (cases ru) (simp_all add: massage_def and_then_def)
  obtain rc fs1 where c: "update_config self ?cfg ?cfg fsu = (rc, fs1)"
    by (cases "update_config self ?cfg ?cfg fsu")
  have rc: "rc = None"
    using assms(2) u ru c by (cases rc) (simp_all add: massage_def and_then_def same)
  obtain re fs2 where e: "update_entities self ?ent ?ent fs1 = (re, fs2)"
    by (cases "update_entities self ?ent ?ent fs1")
  have re: "re = None"
    using assms(2) u ru c rc e by (cases re) (simp_all add: massage_def and_then_def same)
  have pk: "pack self export_zip_path fs2 = (None, fs')"
    using assms u ru c rc e re by (simp add: massage_def and_then_def same)
  from update_config_success[of self ?cfg ?cfg fsu fs1] c rc
  obtain content config where cc:
    "fs_lookup fsu ?cfg = Some (Plain content)" "parse content = Inr config"
    "fs1 = fs_write fsu ?cfg
             (Plain (xml_declaration @ [10]
                     @ tostring (Document (prolog config)
                                   (update_config_tree (user_name_map self) (getroot config))
                                   (epilog config))))"
    by auto
  from update_entities_success[of self ?ent ?ent fs1 fs2] e re
  obtain entities out where ee:
    "fs_lookup fs1 ?ent = Some (Plain entities)"
    "update_entities_content (user_name_map self) entities = Inr out"
    "fs2 = fs_write fs1 ?ent (Plain out)"
    by auto
  have l1: "fs_lookup fs1 ?cfg
            = Some (Plain (xml_declaration @ [10]
                           @ tostring (Document (prolog config)
                                         (update_config_tree (user_name_map self) (getroot config))
                                         (epilog config))))"
    by (simp add: cc(3) fs_lookup_write)
  have l2: "fs_lookup fs2 ?ent = Some (Plain out)"
    by (simp add: ee(3) fs_lookup_write)
  have rest: "\<forall>q. components q \<noteq> components ?cfg \<and> components q \<noteq> components ?ent
                \<longrightarrow> fs_lookup fs2 q = fs_lookup fsu q"
    by (simp add: ee(3) cc(3) fs_lookup_write)
  show ?thesis
    using same u ru cc l1 ee l2 rest pk by blast
qed

theorem massage_rewrites_in_place_witness:
  "\<not> debug ex_self
   \<and> massage ex_self (lit ''in.zip'') ex_fs = (None, ex_packed_fs)
   \<and> prepare_output_path ex_self (config_xml_path ex_self) = config_xml_path ex_self
   \<and> unpack ex_self (lit ''in.zip'') ex_fs = (None, ex_unpacked)
   \<and> fs_lookup ex_unpacked (config_xml_path ex_self) = Some (Plain ex_config)
   \<and> fs_lookup ex_unpacked (entities_xml_path ex_self) = Some (Plain ex_entities)
   \<and> (\<exists>config out.
         parse ex_config = Inr config
       \<and> update_entities_content ex_map ex_entities = Inr out
       \<and> pack ex_self (lit ''in.zip'')
           (fs_write
              (fs_write ex_unpacked (config_xml_path ex_self)
                 (Plain (xml_declaration @ [10]
                         @ tostring (Document (prolog config)
                                       (update_config_tree ex_map (getroot config))
                                       (epilog config)))))
              (entities_xml_path ex_self) (Plain out))
         = (None, ex_packed_fs))
   \<and> fs_lookup ex_packed_fs (lit ''in.fixed_users.zip'')
     = Some (Zip [([lit ''config.xml''],
                   Plain (xml_declaration @ [10]
                          @ lit ''<c><username>bob</username><lead>carol</lead></c>'')),
                  ([lit ''data'', lit ''data.zip''],
                   Zip [([lit ''activeobjects.xml''], Plain (lit ''<o/>'')),
                        ([lit ''entities.xml''],
                         Plain (xml_declaration @ [10]
                                @ lit ''<e><x user=\"bob\" summary=\"it&apos;s\"/></e>''))])])"
proof -
  have h1: "\<not> debug ex_self" by code_simp
  have h2: "massage ex_self (lit ''in.zip'') ex_fs = (None, ex_packed_fs)" by code_simp
  have u: "unpack ex_self (lit ''in.zip'') ex_fs = (None, ex_unpacked)" by code_simp
  have l: "fs_lookup ex_unpacked (config_xml_path ex_self) = Some (Plain ex_config)"
    "fs_lookup ex_unpacked (entities_xml_path ex_self) = Some (Plain ex_entities)"
    by code_simp+
  have m: "user_name_map ex_self = ex_map" by code_simp
  have z: "fs_lookup ex_packed_fs (lit ''in.fixed_users.zip'')
     = Some (Zip [([lit ''config.xml''],
                   Plain (xml_declaration @ [10]
                          @ lit ''<c><username>bob</username><lead>carol</lead></c>'')),
                  ([lit ''data'', lit ''data.zip''],
                   Zip [([lit ''activeobjects.xml''], Plain (lit ''<o/>'')),
                        ([lit ''entities.xml''],
                         Plain (xml_declaration @ [10]
                                @ lit ''<e><x user=\"bob\" summary=\"it&apos;s\"/></e>''))])])"
    by code_simp
  have d: "components (entities_xml_path ex_self) \<noteq> components (config_xml_path ex_self)"
    by code_simp
  from massage_rewrites_in_place[OF h1 h2, of "config_xml_path ex_self"]
  obtain fsu content config fs1 entities out fs2 where
    s: "prepare_output_path ex_self (config_xml_path ex_self) = config_xml_path ex_self"
    and f: "unpack ex_self (lit ''in.zip'') ex_fs = (None, fsu)"
      "fs_lookup fsu (config_xml_path ex_self) = Some (Plain content)"
      "parse content = Inr config"
      "fs1 = fs_write fsu (config_xml_path ex_self)
                  (Plain (xml_declaration @ [10]
                          @ tostring (Document (prolog config)
                                        (update_config_tree (user_name_map ex_self) (getroot config))
                                        (epilog config))))"
      "fs_lookup fs1 (entities_xml_path ex_self) = Some (Plain entities)"
      "update_entities_content (user_name_map ex_self) entities = Inr out"
      "fs2 = fs_write fs1 (entities_xml_path ex_self) (Plain out)"
      "pack ex_self (lit ''in.zip'') fs2 = (None, ex_packed_fs)"
    by blast
  from f(1) u have fsu: "fsu = ex_unpacked" by simp
  from f(2) l(1) have content: "content = ex_config" unfolding fsu by simp
  have "fs_lookup fs1 (entities_xml_path ex_self) = fs_lookup ex_unpacked (entities_xml_path ex_self)"
    unfolding f(4) fsu using d by (simp add: fs_lookup_write)
  with f(5) l(2) have entities: "entities = ex_entities" by simp
  have "\<exists>config out.
         parse ex_config = Inr config
       \<and> update_entities_content ex_map ex_entities = Inr out
       \<and> pack ex_self (lit ''in.zip'')
           (fs_write
              (fs_write ex_unpacked (config_xml_path ex_self)
                 (Plain (xml_declaration @ [10]
                         @ tostring (Document (prolog config)
                                       (update_config_tree ex_map (getroot config))
                                       (epilog config)))))
              (entities_xml_path ex_self) (Plain out))
         = (None, ex_packed_fs)"
    using f(3,6,8) unfolding f(7) f(4) fsu content entities m by blast
  with h1 h2 s u l z show ?thesis by simp
qed

end
